theory Spec2Isabelle
  imports Complex_Main
begin

section \<open>Inflight deduplication registry (redis\_module/inflight.cpp)\<close>

text \<open>
  The registry is \<^verbatim>\<open>std::unordered_map<std::string, TaskGet *> inflight_map\<close>.
  It is modelled by the list of its entries (key, task pointer); a task pointer is an
  address, modelled by a natural number. The operations of the standard container that
  the source uses are written out on that list: \<open>find\<close> looks the key up,
  \<open>erase\<close> removes every entry stored under the key, and \<open>operator[]\<close> followed
  by an assignment overwrites the entry of the key or appends a new one. That the list
  never holds two entries under one key is then a property of the operations, proved
  below, and not a property of the type.

  \<open>enable_inflight_dedup\<close> is the compile-time flag
  \<^verbatim>\<open>config::cache::enable_inflight_dedup\<close> (true in config.h); the model takes it
  as an argument so that both branches of every \<^verbatim>\<open>if constexpr\<close> are visible.
  The two \<^verbatim>\<open>assert\<close>s of inflight.cpp are compiled out under NDEBUG; the model is
  the program without them, which has every run of the program with them.
\<close>

type_synonym task_ptr = nat

type_synonym inflight_map = "(string \<times> task_ptr) list"

definition map_find :: "inflight_map \<Rightarrow> string \<Rightarrow> task_ptr option" where
  "map_find m key = map_of m key"

definition map_contains :: "inflight_map \<Rightarrow> string \<Rightarrow> bool" where
  "map_contains m key = (map_find m key \<noteq> None)"

definition map_erase :: "inflight_map \<Rightarrow> string \<Rightarrow> inflight_map" where
  "map_erase m key = filter (\<lambda>e. fst e \<noteq> key) m"

definition map_assign :: "inflight_map \<Rightarrow> string \<Rightarrow> task_ptr \<Rightarrow> inflight_map" where
  "map_assign m key t =
     (if map_contains m key
      then map (\<lambda>e. if fst e = key then (key, t) else e) m
      else m @ [(key, t)])"

definition check_inflight :: "bool \<Rightarrow> inflight_map \<Rightarrow> string \<Rightarrow> bool" where
  "check_inflight enable_inflight_dedup m key =
     (if \<not> enable_inflight_dedup then False else map_contains m key)"

definition begin_inflight :: "bool \<Rightarrow> inflight_map \<Rightarrow> string \<Rightarrow> task_ptr \<Rightarrow> inflight_map" where
  "begin_inflight enable_inflight_dedup m key t =
     (if \<not> enable_inflight_dedup then m else map_assign m key t)"

definition end_inflight :: "bool \<Rightarrow> inflight_map \<Rightarrow> string \<Rightarrow> task_ptr \<Rightarrow> bool \<times> inflight_map" where
  "end_inflight enable_inflight_dedup m key t =
     (if \<not> enable_inflight_dedup then (True, m)
      else (case map_find m key of
              None \<Rightarrow> (False, m)
            | Some t' \<Rightarrow> if t' \<noteq> t then (False, m) else (True, map_erase m key)))"

definition invalidate_inflight :: "bool \<Rightarrow> inflight_map \<Rightarrow> string \<Rightarrow> inflight_map" where
  "invalidate_inflight enable_inflight_dedup m key =
     (if \<not> enable_inflight_dedup then m else map_erase m key)"

text \<open>The number of entries the registry holds under a key.\<close>

definition entries_of :: "inflight_map \<Rightarrow> string \<Rightarrow> nat" where
  "entries_of m key = length (filter (\<lambda>e. fst e = key) m)"

definition one_entry_per_key :: "inflight_map \<Rightarrow> bool" where
  "one_entry_per_key m = distinct (map fst m)"

section \<open>Request pipeline of the Redis module (redis\_module/get.cpp, set.cpp)\<close>

text \<open>
  The command handlers and the completion callbacks run on the command thread, one
  after the other; each is modelled as a function from the state of the module before
  the call to the state after it.

  The state holds the Redis keyspace (the cache), the inflight registry, the queue of
  Set tasks of the storage worker, and the trace of the calls the handler makes to its
  collaborators, in the order of the calls: replies to the client, wake-ups of blocked
  clients, calls to the ghost cache, to the statistics, to the egress limiter, and the
  calls that end or invalidate an inflight entry (whose effect on the registry is part
  of the state as well). The
  collaborators themselves (the gcache library, the rate limiter and its clock, the
  reply channel) are outside the model: what a handler does to them is what it calls
  them with.

  Redis calls are modelled by their effect on the keyspace: \<^verbatim>\<open>RedisModule_KeyType\<close>
  reads the type of the key, \<^verbatim>\<open>RedisModule_StringSet\<close> stores a string under it,
  \<^verbatim>\<open>RedisModule_DeleteKey\<close> removes it. Opening and closing a key change nothing;
  the recency that Redis keeps for its own eviction, and with it the flag
  \<^verbatim>\<open>REDISMODULE_OPEN_KEY_NOTOUCH\<close>, is not part of the model. A blocked-client
  handle is identified with the client it blocks.
\<close>

datatype cache_value = StringValue string | OtherValue

datatype key_type = KEYTYPE_EMPTY | KEYTYPE_STRING | KEYTYPE_OTHER

datatype status = NONE | OK | ERR

type_synonym client = nat

record TaskGet =
  get_status :: status
  get_client :: client
  get_key :: string
  get_value :: string
  dependents :: "client list"

record TaskSet =
  set_status :: status
  set_client :: client
  set_key :: string
  set_value :: string

text \<open>The private data handed to \<^verbatim>\<open>RedisModule_UnblockClient\<close>.\<close>

datatype privdata = Nullptr | TaskData task_ptr | StringData string

datatype callback = Get_storage_callback | Get_inflight_callback | Set_reply_callback

datatype event =
    ReplyWithError client string
  | ReplyWithStringBuffer client string
  | ReplyWithSimpleString client string
  | WrongArity client
  | BlockClient client callback
  | UnblockClient client privdata
  | Ghost_access_key string nat bool
  | Ghost_update_kv_size string nat
  | Stats_record_get_done nat nat bool
  | Stats_record_set_done nat nat
  | Network_wait_until_can_send
  | Network_consume nat
  | Inflight_end string task_ptr
  | Inflight_invalidate string

record config =
  admit_write :: bool
  enable_inflight_dedup :: bool
  policy_alloc_total_net_bw :: bool

text \<open>config.h: the two compile-time flags are true; \<open>admit_write\<close> is set at run time.\<close>

definition repo_config :: "bool \<Rightarrow> config" where
  "repo_config aw =
     \<lparr> admit_write = aw, enable_inflight_dedup = True, policy_alloc_total_net_bw = True \<rparr>"

record module_state =
  cache :: "string \<Rightarrow> cache_value option"
  inflight :: inflight_map
  task_set_queue :: "TaskSet list"
  trace :: "event list"

definition emit :: "event \<Rightarrow> module_state \<Rightarrow> module_state" where
  "emit e s = s\<lparr>trace := trace s @ [e]\<rparr>"

definition KeyType :: "module_state \<Rightarrow> string \<Rightarrow> key_type" where
  "KeyType s key =
     (case cache s key of
        None \<Rightarrow> KEYTYPE_EMPTY
      | Some (StringValue _) \<Rightarrow> KEYTYPE_STRING
      | Some OtherValue \<Rightarrow> KEYTYPE_OTHER)"

definition StringSet :: "string \<Rightarrow> string \<Rightarrow> module_state \<Rightarrow> module_state" where
  "StringSet key v s = s\<lparr>cache := (cache s)(key \<mapsto> StringValue v)\<rparr>"

definition DeleteKey :: "string \<Rightarrow> module_state \<Rightarrow> module_state" where
  "DeleteKey key s = s\<lparr>cache := (cache s)(key := None)\<rparr>"

definition REDISMODULE_ERRORMSG_WRONGTYPE :: string where
  "REDISMODULE_ERRORMSG_WRONGTYPE =
     ''WRONGTYPE Operation against a key holding the wrong kind of value''"

text \<open>utils.h, namespace \<^verbatim>\<open>utils::resrc\<close>.\<close>

definition kv_to_net_get_client :: "nat \<Rightarrow> nat \<Rightarrow> nat" where
  "kv_to_net_get_client key_size val_size = key_size + val_size"

definition kv_to_net_set_client :: "nat \<Rightarrow> nat \<Rightarrow> nat" where
  "kv_to_net_set_client key_size val_size = key_size + val_size"

definition kv_to_net_get_storage :: "nat \<Rightarrow> nat \<Rightarrow> nat" where
  "kv_to_net_get_storage key_size val_size = key_size + val_size"

definition kv_to_net_set_storage :: "nat \<Rightarrow> nat \<Rightarrow> nat" where
  "kv_to_net_set_storage key_size val_size = key_size + val_size"

text \<open>
  \<^verbatim>\<open>for (auto bc : t->dependents) RedisModule_UnblockClient(bc, data)\<close>.
\<close>

fun unblock_all :: "client list \<Rightarrow> privdata \<Rightarrow> module_state \<Rightarrow> module_state" where
  "unblock_all [] d s = s"
| "unblock_all (bc # bcs) d s = unblock_all bcs d (emit (UnblockClient bc d) s)"

text \<open>
  \<^verbatim>\<open>get::storage_callback\<close>, the reply callback of the client whose GET was sent to
  the storage: \<open>tp\<close> is the address of its task and \<open>t\<close> the task at that address,
  with the status and the value that the storage worker has written; \<open>argv\<close> is the
  command of the client.
\<close>

definition end_inflight_call ::
  "config \<Rightarrow> string \<Rightarrow> task_ptr \<Rightarrow> module_state \<Rightarrow> bool \<times> module_state" where
  "end_inflight_call cfg key tp s =
     (let (r, m) = end_inflight (enable_inflight_dedup cfg) (inflight s) key tp
      in (r, emit (Inflight_end key tp) (s\<lparr>inflight := m\<rparr>)))"

definition invalidate_inflight_call :: "config \<Rightarrow> string \<Rightarrow> module_state \<Rightarrow> module_state" where
  "invalidate_inflight_call cfg key s =
     emit (Inflight_invalidate key)
       (s\<lparr>inflight := invalidate_inflight (enable_inflight_dedup cfg) (inflight s) key\<rparr>)"

definition storage_callback ::
  "config \<Rightarrow> string list \<Rightarrow> task_ptr \<Rightarrow> TaskGet \<Rightarrow> module_state \<Rightarrow> module_state" where
  "storage_callback cfg argv tp t s =
     (let (update_cache, s) = end_inflight_call cfg (get_key t) tp s
      in
        if get_status t = ERR then
          (let s = unblock_all (dependents t) Nullptr s
           in emit (ReplyWithError (get_client t) ''ERR Fail to get from DynamoDB'') s)
        else
          (let s = (if update_cache
                    then emit (Ghost_update_kv_size (get_key t) (length (get_value t)))
                           (StringSet (argv ! 1) (get_value t) s)
                    else s);
               s = emit (ReplyWithStringBuffer (get_client t) (get_value t)) s;
               s = unblock_all (dependents t) (StringData (get_value t)) s;
               s = emit (Stats_record_get_done (length (get_key t)) (length (get_value t)) True) s;
               s = emit Network_wait_until_can_send s;
               net_consumption = kv_to_net_get_client (length (get_key t)) (length (get_value t));
               net_consumption =
                 (if policy_alloc_total_net_bw cfg
                  then net_consumption
                       + kv_to_net_get_storage (length (get_key t)) (length (get_value t))
                  else net_consumption)
           in emit (Network_consume net_consumption) s))"

text \<open>
  \<^verbatim>\<open>get::inflight_callback\<close>, the reply callback of a dependent: \<open>d\<close> is the private
  data it was woken with.
\<close>

definition inflight_callback ::
  "string list \<Rightarrow> client \<Rightarrow> privdata \<Rightarrow> module_state \<Rightarrow> module_state" where
  "inflight_callback argv bc d s =
     (case d of
        StringData v \<Rightarrow>
          (let s = emit (ReplyWithStringBuffer bc v) s;
               k_len = length (argv ! 1);
               s = emit (Stats_record_get_done k_len (length v) False) s;
               s = emit Network_wait_until_can_send s
           in emit (Network_consume (kv_to_net_get_client k_len (length v))) s)
      | _ \<Rightarrow> emit (ReplyWithError bc ''ERR Fail to get from DynamoDB'') s)"

text \<open>
  \<^verbatim>\<open>RedisModule_HopperSet\<close>; \<open>argv\<close> is the command with its arguments, \<open>argc\<close> its
  length. \<open>HopperSet_submit\<close> is the part of the handler after the key is closed.
\<close>

definition HopperSet_submit ::
  "config \<Rightarrow> client \<Rightarrow> string list \<Rightarrow> module_state \<Rightarrow> module_state" where
  "HopperSet_submit cfg ctx argv s =
     (let s = emit (BlockClient ctx Set_reply_callback) s;
          t = \<lparr> set_status = NONE, set_client = ctx, set_key = argv ! 1, set_value = argv ! 2 \<rparr>;
          s = emit (Ghost_access_key (set_key t) (length (set_value t)) False) s;
          s = emit (Stats_record_set_done (length (set_key t)) (length (set_value t))) s;
          s = emit Network_wait_until_can_send s;
          net_consumption = kv_to_net_set_client (length (set_key t)) (length (set_value t));
          net_consumption =
            (if policy_alloc_total_net_bw cfg
             then net_consumption
                  + kv_to_net_set_storage (length (set_key t)) (length (set_value t))
             else net_consumption);
          s = emit (Network_consume net_consumption) s
      in s\<lparr>task_set_queue := task_set_queue s @ [t]\<rparr>)"

definition HopperSet :: "config \<Rightarrow> client \<Rightarrow> string list \<Rightarrow> module_state \<Rightarrow> module_state" where
  "HopperSet cfg ctx argv s =
     (if length argv \<noteq> 3 then emit (WrongArity ctx) s
      else
        let key_str = argv ! 1 in
          if KeyType s key_str = KEYTYPE_STRING then
            HopperSet_submit cfg ctx argv
              (invalidate_inflight_call cfg key_str (StringSet key_str (argv ! 2) s))
          else if KeyType s key_str = KEYTYPE_EMPTY then
            HopperSet_submit cfg ctx argv
              (if admit_write cfg
               then invalidate_inflight_call cfg key_str (StringSet key_str (argv ! 2) s)
               else s)
          else emit (ReplyWithError ctx REDISMODULE_ERRORMSG_WRONGTYPE) s)"

section \<open>Numbers, faults and parameters of the allocation engine\<close>

text \<open>
  A \<^verbatim>\<open>double\<close> is modelled by a real number: the arithmetic of the engine is taken
  exact, without rounding. Zero has no sign. A \<^verbatim>\<open>uint64_t\<close> is a natural number;
  where the source adds or subtracts two of them and the result can leave the range,
  the model reduces it modulo \<open>2 ^ 64\<close> (\<open>u64_add\<close>, \<open>u64_sub\<close>).

  IEEE division by zero gives an infinity or a NaN where real division in HOL gives 0.
  The quotients whose divisor can be zero are therefore computed in \<open>xreal\<close>, the
  reals extended by the two infinities and NaN, with the IEEE comparison (false as
  soon as one side is NaN). Where the source stores such a quotient back into a
  \<^verbatim>\<open>double\<close> that it goes on to compute with, the model stops with the fault
  \<open>NonFinite\<close>: such runs are outside the model.

  A C++ exception is a value \<open>Inl\<close> of the result; reading a vector outside its
  bounds (undefined behaviour in C++) is the fault \<open>UndefinedBehaviour\<close>.
  \<^verbatim>\<open>assert\<close>s are compiled out (NDEBUG), logging is left out.
\<close>

datatype fault =
    RuntimeError string
  | LogicError string
  | UndefinedBehaviour
  | NonFinite

definition ebind :: "fault + 'a \<Rightarrow> ('a \<Rightarrow> fault + 'b) \<Rightarrow> fault + 'b" where
  "ebind m f = (case m of Inl e \<Rightarrow> Inl e | Inr x \<Rightarrow> f x)"

datatype xreal = Fin real | PInf | NInf | NaN

fun xdiv :: "real \<Rightarrow> real \<Rightarrow> xreal" where
  "xdiv a b =
     (if b \<noteq> 0 then Fin (a / b)
      else if 0 < a then PInf
      else if a < 0 then NInf
      else NaN)"

fun xless :: "xreal \<Rightarrow> xreal \<Rightarrow> bool" where
  "xless NaN _ = False"
| "xless _ NaN = False"
| "xless (Fin a) (Fin b) = (a < b)"
| "xless (Fin a) PInf = True"
| "xless (Fin a) NInf = False"
| "xless PInf _ = False"
| "xless NInf NInf = False"
| "xless NInf _ = True"

fun xeq :: "xreal \<Rightarrow> xreal \<Rightarrow> bool" where
  "xeq NaN _ = False"
| "xeq _ NaN = False"
| "xeq a b = (a = b)"

fun xsub :: "xreal \<Rightarrow> xreal \<Rightarrow> xreal" where
  "xsub NaN _ = NaN"
| "xsub _ NaN = NaN"
| "xsub (Fin a) (Fin b) = Fin (a - b)"
| "xsub (Fin a) PInf = NInf"
| "xsub (Fin a) NInf = PInf"
| "xsub PInf PInf = NaN"
| "xsub PInf _ = PInf"
| "xsub NInf NInf = NaN"
| "xsub NInf _ = NInf"

text \<open>
  \<^verbatim>\<open>std::min({a, b, c})\<close>: the first smallest element, found with \<open><\<close> alone, so
  that a NaN in the first place stays and a NaN in a later place is passed over.
\<close>

definition xmin3 :: "xreal \<Rightarrow> xreal \<Rightarrow> xreal \<Rightarrow> xreal" where
  "xmin3 a b c =
     (let r = a;
          r = (if xless b r then b else r);
          r = (if xless c r then c else r)
      in r)"

definition finite_or_fault :: "xreal \<Rightarrow> fault + real" where
  "finite_or_fault x = (case x of Fin r \<Rightarrow> Inr r | _ \<Rightarrow> Inl NonFinite)"

definition u64_add :: "nat \<Rightarrow> nat \<Rightarrow> nat" where
  "u64_add a b = (a + b) mod 2 ^ 64"

definition u64_sub :: "nat \<Rightarrow> nat \<Rightarrow> nat" where
  "u64_sub a b = (a + 2 ^ 64 - b mod 2 ^ 64) mod 2 ^ 64"

text \<open>
  The parameters of params.h. \<open>alloc_total_net_bw\<close>, \<open>cache_delta\<close> and
  \<open>min_cache_size\<close> are run-time globals with setters; the two flags of
  \<^verbatim>\<open>params::mrc\<close> are compile-time constants, taken as parameters as well so that
  both of their branches are part of the model. \<open>repo_params\<close> holds the values of
  params.h and params.cpp.
\<close>

record params =
  alloc_total_net_bw :: bool
  cache_delta :: nat
  min_cache_size :: nat
  disable_interpolation_near_inf :: bool
  conservative_estimation_if_out_of_range :: bool

definition repo_params :: params where
  "repo_params =
     \<lparr> alloc_total_net_bw = True,
       cache_delta = 4 * 1024 * 1024,
       min_cache_size = 4 * 1024 * 1024,
       disable_interpolation_near_inf = False,
       conservative_estimation_if_out_of_range = True \<rparr>"

definition max_trade_round :: nat where
  "max_trade_round = 10000"

definition min_improve_ratio_delta :: real where
  "min_improve_ratio_delta = 1 / 10000"

definition max_miss_ratio :: real where
  "max_miss_ratio = 1"

definition min_miss_ratio :: real where
  "min_miss_ratio = 0"

definition reserved_ratio :: real where
  "reserved_ratio = 1 / 2"

definition db_rcu_epsilon :: real where
  "db_rcu_epsilon = 1 / 10000"

definition db_wcu_epsilon :: real where
  "db_wcu_epsilon = 1 / 10000"

definition net_bw_epsilon :: real where
  "net_bw_epsilon = 1 / 10000"

text \<open>\<^verbatim>\<open>std::numeric_limits<double>::epsilon()\<close> (the source spells it epilson).\<close>

definition epilson :: real where
  "epilson = 1 / 2 ^ 52"

definition relinq_abort_offer :: real where
  "relinq_abort_offer = 0"

text \<open>\<^verbatim>\<open>std::numeric_limits<float>::max()\<close>.\<close>

definition compen_abort_offer :: real where
  "compen_abort_offer = (2 ^ 24 - 1) * 2 ^ 104"

section \<open>Miss-ratio curve (alloc/engine/mrc.h)\<close>

record MissRatioCurve =
  ticks :: "nat list"
  miss_ratios :: "real list"
  miss_ratio_map :: "nat \<Rightarrow> real option"

definition vec_at :: "'a list \<Rightarrow> nat \<Rightarrow> fault + 'a" where
  "vec_at xs i = (if i < length xs then Inr (xs ! i) else Inl UndefinedBehaviour)"

definition vec_front :: "'a list \<Rightarrow> fault + 'a" where
  "vec_front xs = (case xs of [] \<Rightarrow> Inl UndefinedBehaviour | x # _ \<Rightarrow> Inr x)"

definition vec_back :: "'a list \<Rightarrow> fault + 'a" where
  "vec_back xs = (if xs = [] then Inl UndefinedBehaviour else Inr (last xs))"

text \<open>
  \<^verbatim>\<open>std::lower_bound\<close> on a sorted vector: the index of the first element that is
  not less than the value (the length when there is none).
\<close>

definition lower_bound :: "nat list \<Rightarrow> nat \<Rightarrow> nat" where
  "lower_bound xs v = length (takeWhile (\<lambda>t. t < v) xs)"

definition interpolate :: "params \<Rightarrow> real \<Rightarrow> real \<Rightarrow> nat \<Rightarrow> nat \<Rightarrow> real" where
  "interpolate prm l_val r_val l_dist r_dist =
     (if disable_interpolation_near_inf prm \<and> (1 - l_val) < epilson then 1
      else
        let total_dist = real (l_dist + r_dist);
            l_ratio = real r_dist / total_dist;
            r_ratio = real l_dist / total_dist
        in l_val * l_ratio + r_val * r_ratio)"

definition get_miss_ratio_const :: "params \<Rightarrow> MissRatioCurve \<Rightarrow> nat \<Rightarrow> fault + real" where
  "get_miss_ratio_const prm c sz =
     ebind (vec_back (ticks c)) (\<lambda>ticks_back.
       if sz > ticks_back then
         (if conservative_estimation_if_out_of_range prm
          then vec_back (miss_ratios c)
          else Inl (RuntimeError ''cache_size out of range''))
       else
         ebind (vec_front (ticks c)) (\<lambda>ticks_front.
           if sz < ticks_front then
             ebind (vec_front (miss_ratios c)) (\<lambda>mr_front.
               Inr (interpolate prm 1 mr_front sz (ticks_front - sz)))
           else
             let tick_idx = lower_bound (ticks c) sz in
             ebind (vec_at (ticks c) tick_idx) (\<lambda>tick.
               if sz = tick then vec_at (miss_ratios c) tick_idx
               else
                 ebind (vec_at (miss_ratios c) (tick_idx - 1)) (\<lambda>l_val.
                 ebind (vec_at (miss_ratios c) tick_idx) (\<lambda>r_val.
                 ebind (vec_at (ticks c) (tick_idx - 1)) (\<lambda>l_tick.
                   Inr (interpolate prm l_val r_val (sz - l_tick) (tick - sz))))))))"

definition get_miss_ratio ::
  "params \<Rightarrow> MissRatioCurve \<Rightarrow> nat \<Rightarrow> fault + (real \<times> MissRatioCurve)" where
  "get_miss_ratio prm c sz =
     (case miss_ratio_map c sz of
        Some mr \<Rightarrow> Inr (mr, c)
      | None \<Rightarrow>
          ebind (get_miss_ratio_const prm c sz) (\<lambda>miss_ratio.
            Inr (miss_ratio, c\<lparr>miss_ratio_map := (miss_ratio_map c)(sz \<mapsto> miss_ratio)\<rparr>)))"



text \<open>A curve as the constructor makes it: the two vectors and an empty memo table.\<close>

definition mk_mrc :: "nat list \<Rightarrow> real list \<Rightarrow> MissRatioCurve" where
  "mk_mrc ts mrs = \<lparr> ticks = ts, miss_ratios = mrs, miss_ratio_map = (\<lambda>_. None) \<rparr>"

text \<open>
  The curves of the data model: as many miss ratios as ticks, at least one, the ticks
  strictly increasing, the miss ratios in \<open>[0, 1]\<close> and non-increasing.
\<close>

definition wf_mrc :: "MissRatioCurve \<Rightarrow> bool" where
  "wf_mrc c \<longleftrightarrow>
     ticks c \<noteq> [] \<and> length (ticks c) = length (miss_ratios c)
     \<and> sorted_wrt (<) (ticks c)
     \<and> sorted_wrt (\<ge>) (miss_ratios c)
     \<and> list_all (\<lambda>m. 0 \<le> m \<and> m \<le> 1) (miss_ratios c)"

text \<open>
  The left anchor of the segment that ends at anchor \<open>i\<close>: the anchor before it, and
  the point \<open>(0, 1)\<close> for the segment below the first anchor.
\<close>

definition l_tick :: "MissRatioCurve \<Rightarrow> nat \<Rightarrow> nat" where
  "l_tick c i = (if i = 0 then 0 else ticks c ! (i - 1))"

section \<open>Resource vectors (alloc/engine/resrc.h)\<close>

record StatelessResrcVec =
  db_rcu :: real
  db_wcu :: real
  net_bw :: real

record ResrcVec =
  cache_size :: nat
  stateless :: StatelessResrcVec

definition empty_vec :: StatelessResrcVec where
  "empty_vec = \<lparr> db_rcu = 0, db_wcu = 0, net_bw = 0 \<rparr>"

definition is_almost_empty :: "StatelessResrcVec \<Rightarrow> bool" where
  "is_almost_empty v \<longleftrightarrow>
     \<bar>db_rcu v\<bar> < db_rcu_epsilon \<and> \<bar>db_wcu v\<bar> < db_wcu_epsilon \<and> \<bar>net_bw v\<bar> < net_bw_epsilon"

definition vec_plus :: "StatelessResrcVec \<Rightarrow> StatelessResrcVec \<Rightarrow> StatelessResrcVec" where
  "vec_plus a b =
     \<lparr> db_rcu = db_rcu a + db_rcu b, db_wcu = db_wcu a + db_wcu b, net_bw = net_bw a + net_bw b \<rparr>"

definition vec_minus :: "StatelessResrcVec \<Rightarrow> StatelessResrcVec \<Rightarrow> StatelessResrcVec" where
  "vec_minus a b =
     \<lparr> db_rcu = db_rcu a - db_rcu b, db_wcu = db_wcu a - db_wcu b, net_bw = net_bw a - net_bw b \<rparr>"

definition vec_times :: "StatelessResrcVec \<Rightarrow> real \<Rightarrow> StatelessResrcVec" where
  "vec_times a scale_factor =
     \<lparr> db_rcu = db_rcu a * scale_factor, db_wcu = db_wcu a * scale_factor,
       net_bw = net_bw a * scale_factor \<rparr>"

text \<open>
  \<^verbatim>\<open>double operator/(const StatelessResrcVec &other)\<close>, the min-ratio quotient: the
  smallest of the three componentwise quotients, as \<^verbatim>\<open>std::min\<close> finds it.
\<close>

definition vec_div :: "StatelessResrcVec \<Rightarrow> StatelessResrcVec \<Rightarrow> xreal" where
  "vec_div a b =
     xmin3 (xdiv (db_rcu a) (db_rcu b)) (xdiv (db_wcu a) (db_wcu b)) (xdiv (net_bw a) (net_bw b))"

definition is_almost_equal :: "StatelessResrcVec \<Rightarrow> StatelessResrcVec \<Rightarrow> bool" where
  "is_almost_equal a b = is_almost_empty (vec_minus a b)"

definition resrc_plus :: "ResrcVec \<Rightarrow> ResrcVec \<Rightarrow> ResrcVec" where
  "resrc_plus a b =
     \<lparr> cache_size = u64_add (cache_size a) (cache_size b),
       stateless = vec_plus (stateless a) (stateless b) \<rparr>"

section \<open>Tenant (alloc/engine/tenant.h)\<close>

record Tenant =
  t_idx :: nat
  demand_cacheless :: StatelessResrcVec
  resrc :: ResrcVec
  mrc :: MissRatioCurve
  net_bw_alpha :: real
  rcu_delta_relinq :: real
  rcu_delta_compen :: real
  net_delta_relinq :: real
  net_delta_compen :: real
  mr_inc_if_more_cache :: real
  mr_dec_if_less_cache :: real
  reserved_cache_size :: nat

text \<open>
  The constructor. \<open>reserved_cache_size\<close> is the product
  \<^verbatim>\<open>base_resrc.cache_size * reserved_ratio\<close>, computed in \<^verbatim>\<open>double\<close> and converted
  back to \<^verbatim>\<open>uint64_t\<close>, which truncates.
\<close>

definition mk_tenant ::
  "nat \<Rightarrow> StatelessResrcVec \<Rightarrow> ResrcVec \<Rightarrow> MissRatioCurve \<Rightarrow> real \<Rightarrow> Tenant" where
  "mk_tenant idx demand base_resrc curve alpha =
     \<lparr> t_idx = idx, demand_cacheless = demand, resrc = base_resrc, mrc = curve,
       net_bw_alpha = alpha,
       rcu_delta_relinq = 0, rcu_delta_compen = 0, net_delta_relinq = 0, net_delta_compen = 0,
       mr_inc_if_more_cache = 0, mr_dec_if_less_cache = 0,
       reserved_cache_size = nat \<lfloor>real (cache_size base_resrc) * reserved_ratio\<rfloor> \<rparr>"

text \<open>Assignments to the fields of \<open>resrc\<close>.\<close>

definition set_cache_size :: "nat \<Rightarrow> Tenant \<Rightarrow> Tenant" where
  "set_cache_size n t = t\<lparr>resrc := (resrc t)\<lparr>cache_size := n\<rparr>\<rparr>"

definition set_stateless :: "StatelessResrcVec \<Rightarrow> Tenant \<Rightarrow> Tenant" where
  "set_stateless v t = t\<lparr>resrc := (resrc t)\<lparr>stateless := v\<rparr>\<rparr>"

definition add_db_rcu :: "real \<Rightarrow> Tenant \<Rightarrow> Tenant" where
  "add_db_rcu x t =
     set_stateless ((stateless (resrc t))\<lparr>db_rcu := db_rcu (stateless (resrc t)) + x\<rparr>) t"

definition add_net_bw :: "real \<Rightarrow> Tenant \<Rightarrow> Tenant" where
  "add_net_bw x t =
     set_stateless ((stateless (resrc t))\<lparr>net_bw := net_bw (stateless (resrc t)) + x\<rparr>) t"

text \<open>\<^verbatim>\<open>mrc.get_miss_ratio(size)\<close> on the curve of the tenant, which memoises.\<close>

definition tenant_miss_ratio :: "params \<Rightarrow> Tenant \<Rightarrow> nat \<Rightarrow> fault + (real \<times> Tenant)" where
  "tenant_miss_ratio prm t sz =
     ebind (get_miss_ratio prm (mrc t) sz) (\<lambda>(mr, c). Inr (mr, t\<lparr>mrc := c\<rparr>))"

definition collect_idle :: "params \<Rightarrow> Tenant \<Rightarrow> fault + (StatelessResrcVec \<times> Tenant)" where
  "collect_idle prm t =
     ebind (tenant_miss_ratio prm t (cache_size (resrc t))) (\<lambda>(mr, t).
       let demand = demand_cacheless t;
           demand = demand\<lparr>db_rcu := db_rcu demand * mr\<rparr>;
           demand = (if alloc_total_net_bw prm
                     then demand\<lparr>net_bw := net_bw demand
                                             * (mr + ((1 - net_bw_alpha t) * (1 - mr)))\<rparr>
                     else demand)
       in ebind (finite_or_fault (vec_div (stateless (resrc t)) demand)) (\<lambda>tp.
            let used = vec_times demand tp;
                idle = vec_minus (stateless (resrc t)) used
            in Inr (idle, set_stateless used t)))"

text \<open>
  The two predictions. The source compares the miss ratios with the infinity of
  \<^verbatim>\<open>double\<close> first; a miss ratio of the model is a real number, so these tests are
  false and left out. The labels \<open>abort_offer\<close> and \<open>immediate_offer\<close> of the source
  are the functions of these names.
\<close>

definition more_abort_offer :: "params \<Rightarrow> Tenant \<Rightarrow> Tenant" where
  "more_abort_offer prm t =
     (let t = t\<lparr>rcu_delta_relinq := relinq_abort_offer\<rparr>
      in if alloc_total_net_bw prm then t\<lparr>net_delta_relinq := relinq_abort_offer\<rparr> else t)"

definition pred_rcu_net_delta_if_more_cache :: "params \<Rightarrow> nat \<Rightarrow> Tenant \<Rightarrow> fault + Tenant" where
  "pred_rcu_net_delta_if_more_cache prm delta t =
     ebind (tenant_miss_ratio prm t (cache_size (resrc t))) (\<lambda>(curr_mr, t).
       if curr_mr \<le> epilson then Inr (more_abort_offer prm t)
       else
         ebind (tenant_miss_ratio prm t (u64_add (cache_size (resrc t)) delta)) (\<lambda>(pred_mr, t).
           if pred_mr < min_miss_ratio then Inr (more_abort_offer prm t)
           else
             let delta_mr = curr_mr - pred_mr in
             if delta_mr \<le> epilson then Inr (more_abort_offer prm t)
             else
               let t = t\<lparr>rcu_delta_relinq := db_rcu (stateless (resrc t)) * delta_mr / curr_mr\<rparr>
               in if alloc_total_net_bw prm
                  then ebind (finite_or_fault
                                (xdiv (net_bw (stateless (resrc t)) * delta_mr * net_bw_alpha t)
                                      (curr_mr * net_bw_alpha t + 1 - net_bw_alpha t)))
                         (\<lambda>q. Inr (t\<lparr>net_delta_relinq := q\<rparr>))
                  else Inr t))"

definition less_abort_offer :: "params \<Rightarrow> Tenant \<Rightarrow> Tenant" where
  "less_abort_offer prm t =
     (let t = t\<lparr>rcu_delta_compen := compen_abort_offer\<rparr>
      in if alloc_total_net_bw prm then t\<lparr>net_delta_compen := compen_abort_offer\<rparr> else t)"

definition less_immediate_offer :: "params \<Rightarrow> Tenant \<Rightarrow> Tenant" where
  "less_immediate_offer prm t =
     (let t = t\<lparr>rcu_delta_compen := 0\<rparr>
      in if alloc_total_net_bw prm then t\<lparr>net_delta_compen := 0\<rparr> else t)"

definition pred_rcu_net_delta_if_less_cache :: "params \<Rightarrow> nat \<Rightarrow> Tenant \<Rightarrow> fault + Tenant" where
  "pred_rcu_net_delta_if_less_cache prm delta t =
     (if cache_size (resrc t) < u64_add (min_cache_size prm) delta
      then Inr (less_abort_offer prm t)
      else
        ebind (tenant_miss_ratio prm t (cache_size (resrc t))) (\<lambda>(curr_mr, t).
        ebind (tenant_miss_ratio prm t (u64_sub (cache_size (resrc t)) delta)) (\<lambda>(pred_mr, t).
          if pred_mr > max_miss_ratio then Inr (less_abort_offer prm t)
          else
            let delta_mr = pred_mr - curr_mr in
            if delta_mr \<le> epilson then Inr (less_immediate_offer prm t)
            else if pred_mr \<le> epilson then Inr (less_immediate_offer prm t)
            else if curr_mr \<le> epilson then Inr (less_abort_offer prm t)
            else
              let t = t\<lparr>rcu_delta_compen := db_rcu (stateless (resrc t)) * delta_mr / curr_mr\<rparr>;
                  t = t\<lparr>net_delta_compen := 0\<rparr>
              in if alloc_total_net_bw prm
                 then ebind (finite_or_fault
                               (xdiv (net_bw (stateless (resrc t)) * delta_mr * net_bw_alpha t)
                                     (curr_mr * net_bw_alpha t + 1 - net_bw_alpha t)))
                        (\<lambda>q. Inr (t\<lparr>net_delta_compen := q\<rparr>))
                 else Inr t)))"

definition update_rcu_net_delta :: "params \<Rightarrow> Tenant \<Rightarrow> fault + Tenant" where
  "update_rcu_net_delta prm t =
     ebind (pred_rcu_net_delta_if_more_cache prm (cache_delta prm) t)
       (pred_rcu_net_delta_if_less_cache prm (cache_delta prm))"

definition update_mr_delta :: "params \<Rightarrow> Tenant \<Rightarrow> fault + Tenant" where
  "update_mr_delta prm t =
     ebind (tenant_miss_ratio prm t (cache_size (resrc t))) (\<lambda>(curr_mr, t).
     ebind (tenant_miss_ratio prm t (u64_add (cache_size (resrc t)) (cache_delta prm))) (\<lambda>(more_mr, t).
     ebind (tenant_miss_ratio prm t (u64_sub (cache_size (resrc t)) (cache_delta prm))) (\<lambda>(less_mr, t).
       Inr (t\<lparr>mr_inc_if_more_cache := curr_mr - more_mr,
              mr_dec_if_less_cache := less_mr - curr_mr\<rparr>))))"

definition can_donate :: "params \<Rightarrow> Tenant \<Rightarrow> bool" where
  "can_donate prm t \<longleftrightarrow>
     cache_size (resrc t) \<ge> u64_add (reserved_cache_size t) (cache_delta prm)"

definition scale_stateless_resrc :: "real \<Rightarrow> Tenant \<Rightarrow> Tenant" where
  "scale_stateless_resrc scale_factor t =
     set_stateless (vec_times (stateless (resrc t)) scale_factor) t"

definition scale_stateless_resrc_by_owned ::
  "StatelessResrcVec \<Rightarrow> StatelessResrcVec \<Rightarrow> nat \<Rightarrow> Tenant \<Rightarrow> Tenant" where
  "scale_stateless_resrc_by_owned avail rsum even_denom t =
     (let db_rcu_factor = (if db_rcu rsum \<noteq> 0 then db_rcu (stateless (resrc t)) / db_rcu rsum
                           else 1 / real even_denom);
          db_wcu_factor = (if db_wcu rsum \<noteq> 0 then db_wcu (stateless (resrc t)) / db_wcu rsum
                           else 1 / real even_denom);
          net_bw_factor = (if net_bw rsum \<noteq> 0 then net_bw (stateless (resrc t)) / net_bw rsum
                           else 1 / real even_denom)
      in set_stateless
           \<lparr> db_rcu = db_rcu (stateless (resrc t)) + db_rcu avail * db_rcu_factor,
             db_wcu = db_wcu (stateless (resrc t)) + db_wcu avail * db_wcu_factor,
             net_bw = net_bw (stateless (resrc t)) + net_bw avail * net_bw_factor \<rparr> t)"

text \<open>
  The tenants live in the vector \<^verbatim>\<open>Allocator::tenants\<close>, and the lists of the
  allocator hold pointers into it. The vector is a list, a pointer is an index into
  it, and an assignment through a pointer is the update of the list at that index.
  \<open>relocate_cache\<close> and \<open>relocate_resrc\<close> make their assignments one after the
  other, in the order of the source, so that they mean what the source means when the
  two pointers are the same.
\<close>

definition upd :: "nat \<Rightarrow> (Tenant \<Rightarrow> Tenant) \<Rightarrow> Tenant list \<Rightarrow> Tenant list" where
  "upd i f ts = ts[i := f (ts ! i)]"

definition relocate_cache :: "params \<Rightarrow> nat \<Rightarrow> nat \<Rightarrow> Tenant list \<Rightarrow> Tenant list" where
  "relocate_cache prm t_receiver t_donator ts =
     (let ts = upd t_receiver
                 (\<lambda>t. set_cache_size (u64_add (cache_size (resrc t)) (cache_delta prm)) t) ts;
          ts = upd t_donator
                 (\<lambda>t. set_cache_size (u64_sub (cache_size (resrc t)) (cache_delta prm)) t) ts
      in ts)"

definition relocate_resrc ::
  "params \<Rightarrow> nat \<Rightarrow> nat \<Rightarrow> real \<Rightarrow> real \<Rightarrow> real \<Rightarrow> real \<Rightarrow> Tenant list \<Rightarrow> Tenant list" where
  "relocate_resrc prm t_relinq t_compen rcu_relinq rcu_compen net_relinq net_compen ts =
     (let ts = upd t_compen
                 (\<lambda>t. set_cache_size (u64_sub (cache_size (resrc t)) (cache_delta prm)) t) ts;
          ts = upd t_relinq
                 (\<lambda>t. set_cache_size (u64_add (cache_size (resrc t)) (cache_delta prm)) t) ts;
          ts = upd t_compen (add_db_rcu rcu_compen) ts;
          ts = upd t_relinq (add_db_rcu (- rcu_relinq)) ts
      in if alloc_total_net_bw prm
         then upd t_relinq (add_net_bw (- net_relinq)) (upd t_compen (add_net_bw net_compen) ts)
         else ts)"

fun aggregate_from :: "StatelessResrcVec \<Rightarrow> Tenant list \<Rightarrow> StatelessResrcVec" where
  "aggregate_from acc [] = acc"
| "aggregate_from acc (t # ts) = aggregate_from (vec_plus acc (stateless (resrc t))) ts"

definition aggregate_resrc :: "Tenant list \<Rightarrow> StatelessResrcVec" where
  "aggregate_resrc ts = aggregate_from empty_vec ts"


text \<open>
  The demand of a tenant projected under the miss ratio \<open>mr\<close>, in the words of the
  specification of \<open>collect_idle\<close>.
\<close>

definition spec_projected_demand :: "params \<Rightarrow> Tenant \<Rightarrow> real \<Rightarrow> StatelessResrcVec" where
  "spec_projected_demand prm t mr =
     \<lparr> db_rcu = db_rcu (demand_cacheless t) * mr,
       db_wcu = db_wcu (demand_cacheless t),
       net_bw = (if alloc_total_net_bw prm
                 then net_bw (demand_cacheless t) * (mr + (1 - net_bw_alpha t) * (1 - mr))
                 else net_bw (demand_cacheless t)) \<rparr>"

section \<open>Allocator (alloc/engine/alloc.h)\<close>

record alloc_policy =
  harvest :: bool
  conserving :: bool
  memshare :: bool

record Allocator =
  policy :: alloc_policy
  tenants :: "Tenant list"
  total_resrc :: ResrcVec

definition mk_allocator :: "bool \<Rightarrow> bool \<Rightarrow> bool \<Rightarrow> Allocator" where
  "mk_allocator h c m =
     \<lparr> policy = \<lparr> harvest = h, conserving = c, memshare = m \<rparr>,
       tenants = [],
       total_resrc = \<lparr> cache_size = 0, stateless = empty_vec \<rparr> \<rparr>"

definition add_tenant ::
  "StatelessResrcVec \<Rightarrow> ResrcVec \<Rightarrow> MissRatioCurve \<Rightarrow> real \<Rightarrow> Allocator \<Rightarrow> Allocator" where
  "add_tenant demand base_resrc curve alpha a =
     a\<lparr> total_resrc := resrc_plus (total_resrc a) base_resrc,
        tenants := tenants a @ [mk_tenant (length (tenants a)) demand base_resrc curve alpha] \<rparr>"

definition get_alloc_result :: "Allocator \<Rightarrow> ResrcVec list" where
  "get_alloc_result a = map resrc (tenants a)"

text \<open>
  A loop \<^verbatim>\<open>for (auto &t : tenants) t.f()\<close> whose body can throw: the tenants are
  updated in order, and the first exception ends the loop.
\<close>

fun for_each_tenant :: "(Tenant \<Rightarrow> fault + Tenant) \<Rightarrow> Tenant list \<Rightarrow> fault + Tenant list" where
  "for_each_tenant f [] = Inr []"
| "for_each_tenant f (t # ts) =
     (case f t of
        Inl e \<Rightarrow> Inl e
      | Inr t' \<Rightarrow> (case for_each_tenant f ts of Inl e \<Rightarrow> Inl e | Inr ts' \<Rightarrow> Inr (t' # ts')))"

text \<open>The same for an assignment through one pointer.\<close>

definition upd_fault ::
  "nat \<Rightarrow> (Tenant \<Rightarrow> fault + Tenant) \<Rightarrow> Tenant list \<Rightarrow> fault + Tenant list" where
  "upd_fault i f ts = ebind (f (ts ! i)) (\<lambda>t. Inr (ts[i := t]))"

text \<open>The loop of \<open>do_alloc\<close> that collects the idle resources of every tenant.\<close>

fun collect_all ::
  "params \<Rightarrow> Tenant list \<Rightarrow> StatelessResrcVec \<Rightarrow> fault + (Tenant list \<times> StatelessResrcVec)" where
  "collect_all prm [] resrc_avail = Inr ([], resrc_avail)"
| "collect_all prm (t # ts) resrc_avail =
     (case collect_idle prm t of
        Inl e \<Rightarrow> Inl e
      | Inr (resrc_idle, t') \<Rightarrow>
          (case collect_all prm ts (vec_plus resrc_avail resrc_idle) of
             Inl e \<Rightarrow> Inl e
           | Inr (ts', avail') \<Rightarrow> Inr (t' # ts', avail')))"

text \<open>
  \<^verbatim>\<open>estimate_bottleneck\<close> writes three results through references; the model
  returns them.
\<close>

definition estimate_bottleneck ::
  "ResrcVec \<Rightarrow> StatelessResrcVec \<Rightarrow> xreal \<times> bool \<times> bool" where
  "estimate_bottleneck tot resrc_avail =
     (let resrc_sum = vec_minus (stateless tot) resrc_avail;
          estimated_improve_ratio = vec_div resrc_avail resrc_sum
      in (estimated_improve_ratio,
          xeq estimated_improve_ratio (xdiv (db_rcu resrc_avail) (db_rcu resrc_sum)),
          xeq estimated_improve_ratio (xdiv (net_bw resrc_avail) (net_bw resrc_sum))))"

text \<open>
  \<^verbatim>\<open>std::max_element\<close> and \<^verbatim>\<open>std::min_element\<close> with a comparison: the position
  of the first largest and of the first smallest element of the list (0, the position
  of the end, when the list is empty).
\<close>

fun max_element_from :: "('a \<Rightarrow> 'a \<Rightarrow> bool) \<Rightarrow> 'a \<Rightarrow> nat \<Rightarrow> nat \<Rightarrow> 'a list \<Rightarrow> nat" where
  "max_element_from lt largest pos i [] = pos"
| "max_element_from lt largest pos i (x # xs) =
     (if lt largest x then max_element_from lt x i (Suc i) xs
      else max_element_from lt largest pos (Suc i) xs)"

definition max_element :: "('a \<Rightarrow> 'a \<Rightarrow> bool) \<Rightarrow> 'a list \<Rightarrow> nat" where
  "max_element lt xs = (case xs of [] \<Rightarrow> 0 | x # rest \<Rightarrow> max_element_from lt x 0 1 rest)"

fun min_element_from :: "('a \<Rightarrow> 'a \<Rightarrow> bool) \<Rightarrow> 'a \<Rightarrow> nat \<Rightarrow> nat \<Rightarrow> 'a list \<Rightarrow> nat" where
  "min_element_from lt smallest pos i [] = pos"
| "min_element_from lt smallest pos i (x # xs) =
     (if lt x smallest then min_element_from lt x i (Suc i) xs
      else min_element_from lt smallest pos (Suc i) xs)"

definition min_element :: "('a \<Rightarrow> 'a \<Rightarrow> bool) \<Rightarrow> 'a list \<Rightarrow> nat" where
  "min_element lt xs = (case xs of [] \<Rightarrow> 0 | x # rest \<Rightarrow> min_element_from lt x 0 1 rest)"

definition iter_swap :: "nat \<Rightarrow> nat \<Rightarrow> 'a list \<Rightarrow> 'a list" where
  "iter_swap i j xs = xs[i := xs ! j, j := xs ! i]"

text \<open>The comparisons of \<open>do_harvest\<close>, on pointers to tenants.\<close>

definition less_rcu_relinq :: "Tenant list \<Rightarrow> nat \<Rightarrow> nat \<Rightarrow> bool" where
  "less_rcu_relinq ts lhs rhs \<longleftrightarrow> rcu_delta_relinq (ts ! lhs) < rcu_delta_relinq (ts ! rhs)"

definition less_rcu_compen :: "Tenant list \<Rightarrow> nat \<Rightarrow> nat \<Rightarrow> bool" where
  "less_rcu_compen ts lhs rhs \<longleftrightarrow> rcu_delta_compen (ts ! lhs) < rcu_delta_compen (ts ! rhs)"

definition less_net_relinq :: "Tenant list \<Rightarrow> nat \<Rightarrow> nat \<Rightarrow> bool" where
  "less_net_relinq ts lhs rhs \<longleftrightarrow> net_delta_relinq (ts ! lhs) < net_delta_relinq (ts ! rhs)"

definition less_net_compen :: "Tenant list \<Rightarrow> nat \<Rightarrow> nat \<Rightarrow> bool" where
  "less_net_compen ts lhs rhs \<longleftrightarrow> net_delta_compen (ts ! lhs) < net_delta_compen (ts ! rhs)"

text \<open>The variables of \<open>do_harvest\<close> that live across the rounds of its loop.\<close>

record harvest_state =
  h_tenants :: "Tenant list"
  h_avail :: StatelessResrcVec
  prev_estimated_improve_ratio :: xreal
  is_rcu_bottleneck :: bool
  is_net_bottleneck :: bool
  rcu_relinq_list :: "nat list"
  rcu_compen_list :: "nat list"
  net_relinq_list :: "nat list"
  net_compen_list :: "nat list"
  trade_round :: nat

text \<open>
  The choice of the two tenants of a round: \<open>None\<close> when neither cache-correlated
  resource is the bottleneck (the loop ends), and otherwise the relinquisher, the
  compensator and the state, in which \<^verbatim>\<open>std::iter_swap\<close> may have reordered a list.
\<close>

definition pick_deal :: "params \<Rightarrow> harvest_state \<Rightarrow> (nat \<times> nat \<times> harvest_state) option" where
  "pick_deal prm st =
     (let ts = h_tenants st in
      if is_rcu_bottleneck st then
        (let it_relinq = max_element (less_rcu_relinq ts) (rcu_relinq_list st);
             it_compen = min_element (less_rcu_compen ts) (rcu_compen_list st);
             t_relinq = rcu_relinq_list st ! it_relinq;
             t_compen = rcu_compen_list st ! it_compen
         in if t_relinq = t_compen then
              (let l = iter_swap it_compen 0 (rcu_compen_list st);
                   it_compen = 1 + min_element (less_rcu_compen ts) (tl l)
               in Some (t_relinq, l ! it_compen, st\<lparr>rcu_compen_list := l\<rparr>))
            else Some (t_relinq, t_compen, st))
      else if alloc_total_net_bw prm \<and> is_net_bottleneck st then
        (let it_relinq = max_element (less_net_relinq ts) (net_relinq_list st);
             it_compen = min_element (less_net_compen ts) (net_compen_list st);
             t_relinq = net_relinq_list st ! it_relinq;
             t_compen = net_compen_list st ! it_compen
         in if t_relinq = t_compen then
              (let l = iter_swap it_compen 0 (net_compen_list st);
                   it_compen = 1 + min_element (less_net_compen ts) (tl l)
               in Some (t_relinq, l ! it_compen, st\<lparr>net_compen_list := l\<rparr>))
            else Some (t_relinq, t_compen, st))
      else None)"

text \<open>
  One round of the loop of \<open>do_harvest\<close> after the test of \<open>trade_round\<close>: \<open>None\<close>
  when the round ends the loop with a \<^verbatim>\<open>break\<close> (nothing that outlives the loop has
  changed by then), and the state after the round otherwise.
\<close>

definition harvest_round :: "params \<Rightarrow> ResrcVec \<Rightarrow> harvest_state \<Rightarrow> fault + harvest_state option" where
  "harvest_round prm tot st =
     (case pick_deal prm st of
        None \<Rightarrow> Inr None
      | Some (t_relinq, t_compen, st) \<Rightarrow>
          let ts = h_tenants st;
              rcu_relinq = rcu_delta_relinq (ts ! t_relinq);
              net_relinq = net_delta_relinq (ts ! t_relinq);
              rcu_compen = rcu_delta_compen (ts ! t_compen);
              net_compen = net_delta_compen (ts ! t_compen);
              rcu_profit = rcu_relinq - rcu_compen;
              net_profit = net_relinq - net_compen;
              resrc_if_deal = h_avail st;
              resrc_if_deal = resrc_if_deal\<lparr>db_rcu := db_rcu resrc_if_deal + rcu_profit\<rparr>;
              resrc_if_deal = resrc_if_deal\<lparr>net_bw := net_bw resrc_if_deal + net_profit\<rparr>;
              (curr_estimated_improve_ratio, is_rcu, is_net) = estimate_bottleneck tot resrc_if_deal;
              st = st\<lparr>is_rcu_bottleneck := is_rcu, is_net_bottleneck := is_net\<rparr>
          in if xless (xsub curr_estimated_improve_ratio (prev_estimated_improve_ratio st))
                      (Fin min_improve_ratio_delta)
             then Inr None
             else
               let st = st\<lparr>prev_estimated_improve_ratio := curr_estimated_improve_ratio,
                           h_avail := resrc_if_deal\<rparr>;
                   ts = relocate_resrc prm t_relinq t_compen rcu_relinq rcu_compen
                          net_relinq net_compen ts
               in ebind (upd_fault t_relinq (update_rcu_net_delta prm) ts) (\<lambda>ts.
                  ebind (upd_fault t_compen (update_rcu_net_delta prm) ts) (\<lambda>ts.
                    Inr (Some (st\<lparr>h_tenants := ts\<rparr>)))))"

function harvest_loop :: "params \<Rightarrow> ResrcVec \<Rightarrow> harvest_state \<Rightarrow> fault + harvest_state" where
  "harvest_loop prm tot st =
     (if trade_round st \<ge> max_trade_round then Inr st
      else
        (case harvest_round prm tot st of
           Inl e \<Rightarrow> Inl e
         | Inr None \<Rightarrow> Inr st
         | Inr (Some st') \<Rightarrow> harvest_loop prm tot (st'\<lparr>trade_round := Suc (trade_round st)\<rparr>)))"
  by pat_completeness auto
termination
  by (relation "measure (\<lambda>(prm, tot, st). max_trade_round - trade_round st)") auto

declare harvest_loop.simps [simp del]

text \<open>
  \<open>do_harvest\<close> returns the tenants, the available resources (its reference
  argument) and the number of rounds it has traded, which the source logs.
\<close>

definition do_harvest ::
  "params \<Rightarrow> ResrcVec \<Rightarrow> Tenant list \<Rightarrow> StatelessResrcVec
     \<Rightarrow> fault + (Tenant list \<times> StatelessResrcVec \<times> nat)" where
  "do_harvest prm tot ts resrc_avail =
     (let (prev, is_rcu, is_net) = estimate_bottleneck tot resrc_avail
      in ebind (for_each_tenant (update_rcu_net_delta prm) ts) (\<lambda>ts.
           let ptrs = [0 ..< length ts];
               st = \<lparr> h_tenants = ts, h_avail = resrc_avail,
                      prev_estimated_improve_ratio = prev,
                      is_rcu_bottleneck = is_rcu, is_net_bottleneck = is_net,
                      rcu_relinq_list = ptrs, rcu_compen_list = ptrs,
                      net_relinq_list = (if alloc_total_net_bw prm then ptrs else []),
                      net_compen_list = (if alloc_total_net_bw prm then ptrs else []),
                      trade_round = 0 \<rparr>
           in ebind (harvest_loop prm tot st) (\<lambda>st.
                Inr (h_tenants st, h_avail st, trade_round st))))"

text \<open>
  \<open>do_redistribute\<close> returns the improvement ratio, the tenants and the available
  resources (its reference argument).
\<close>

definition do_redistribute ::
  "alloc_policy \<Rightarrow> ResrcVec \<Rightarrow> Tenant list \<Rightarrow> StatelessResrcVec
     \<Rightarrow> fault + (xreal \<times> Tenant list \<times> StatelessResrcVec)" where
  "do_redistribute pol tot ts resrc_avail =
     (let resrc_sum = vec_minus (stateless tot) resrc_avail;
          improve_ratio = vec_div resrc_avail resrc_sum
      in if conserving pol then
           Inr (improve_ratio,
                map (scale_stateless_resrc_by_owned resrc_avail resrc_sum (length ts)) ts,
                empty_vec)
         else
           ebind (finite_or_fault improve_ratio) (\<lambda>r.
             let scale_factor = 1 + r;
                 ts = map (scale_stateless_resrc scale_factor) ts;
                 resrc_sum = aggregate_resrc ts
             in Inr (improve_ratio, ts, vec_minus (stateless tot) resrc_sum)))"

text \<open>
  \<open>do_memshare\<close>. \<^verbatim>\<open>std::sort\<close> is modelled by the insertion sort that keeps the
  order of equivalent elements, which is one of the orders the standard allows.
  A round updates the miss-ratio deltas of every tenant and then either moves cache
  and goes on (\<open>True\<close>) or ends the loop (\<open>False\<close>). The loop has no bound on its
  rounds: it is a partial function, whose value is \<open>None\<close> when it does not return.
\<close>

definition less_mr_inc :: "Tenant list \<Rightarrow> nat \<Rightarrow> nat \<Rightarrow> bool" where
  "less_mr_inc ts lhs rhs \<longleftrightarrow> mr_inc_if_more_cache (ts ! lhs) < mr_dec_if_less_cache (ts ! rhs)"

definition less_mr_dec :: "Tenant list \<Rightarrow> nat \<Rightarrow> nat \<Rightarrow> bool" where
  "less_mr_dec ts lhs rhs \<longleftrightarrow> mr_dec_if_less_cache (ts ! lhs) < mr_dec_if_less_cache (ts ! rhs)"

fun sort_insert :: "('a \<Rightarrow> 'a \<Rightarrow> bool) \<Rightarrow> 'a \<Rightarrow> 'a list \<Rightarrow> 'a list" where
  "sort_insert lt x [] = [x]"
| "sort_insert lt x (y # ys) = (if lt x y then x # y # ys else y # sort_insert lt x ys)"

fun std_sort_from :: "('a \<Rightarrow> 'a \<Rightarrow> bool) \<Rightarrow> 'a list \<Rightarrow> 'a list \<Rightarrow> 'a list" where
  "std_sort_from lt sorted_part [] = sorted_part"
| "std_sort_from lt sorted_part (x # xs) = std_sort_from lt (sort_insert lt x sorted_part) xs"

definition std_sort :: "('a \<Rightarrow> 'a \<Rightarrow> bool) \<Rightarrow> 'a list \<Rightarrow> 'a list" where
  "std_sort lt xs = std_sort_from lt [] xs"

record memshare_state =
  m_tenants :: "Tenant list"
  cache_more_list :: "nat list"
  cache_less_list :: "nat list"

definition memshare_round :: "params \<Rightarrow> memshare_state \<Rightarrow> fault + (bool \<times> memshare_state)" where
  "memshare_round prm st =
     ebind (for_each_tenant (update_mr_delta prm) (m_tenants st)) (\<lambda>ts.
       let it_receiver = max_element (less_mr_inc ts) (cache_more_list st);
           receiver = cache_more_list st ! it_receiver;
           sorted_list = std_sort (less_mr_dec ts) (cache_less_list st);
           st = st\<lparr>m_tenants := ts, cache_less_list := sorted_list\<rparr>
       in case find (\<lambda>d. d \<noteq> receiver \<and> can_donate prm (ts ! d)) sorted_list of
            None \<Rightarrow> Inr (False, st)
          | Some donator \<Rightarrow>
              let mr_inc = mr_inc_if_more_cache (ts ! receiver);
                  mr_dec = mr_dec_if_less_cache (ts ! donator)
              in if mr_inc > mr_dec
                 then Inr (True, st\<lparr>m_tenants := relocate_cache prm receiver donator ts\<rparr>)
                 else Inr (False, st))"

partial_function (option) memshare_loop ::
  "params \<Rightarrow> memshare_state \<Rightarrow> (fault + memshare_state) option" where
  "memshare_loop prm st =
     (case memshare_round prm st of
        Inl e \<Rightarrow> Some (Inl e)
      | Inr (go, st') \<Rightarrow> if go then memshare_loop prm st' else Some (Inr st'))"

definition do_memshare :: "params \<Rightarrow> Tenant list \<Rightarrow> (fault + Tenant list) option" where
  "do_memshare prm ts =
     (case memshare_loop prm
             \<lparr> m_tenants = ts, cache_more_list = [0 ..< length ts],
               cache_less_list = [0 ..< length ts] \<rparr> of
        None \<Rightarrow> None
      | Some (Inl e) \<Rightarrow> Some (Inl e)
      | Some (Inr st) \<Rightarrow> Some (Inr (m_tenants st)))"

text \<open>
  \<open>do_alloc\<close>. \<open>do_alloc_traced\<close> returns, with the improvement ratio and the
  allocator after the call, the number of rounds that the harvest phase has traded
  (0 when the phase does not run); \<open>do_alloc\<close> is the function of the source.
  \<open>alloc_phases\<close> is \<open>do_alloc\<close> from the collection of the idle resources on.
\<close>

definition alloc_phases ::
  "params \<Rightarrow> Allocator \<Rightarrow> Tenant list \<Rightarrow> fault + (xreal \<times> Allocator \<times> nat)" where
  "alloc_phases prm a ts =
     (case collect_all prm ts empty_vec of
        Inl e \<Rightarrow> Inl e
      | Inr (ts, resrc_avail) \<Rightarrow>
          (case (if harvest (policy a) then do_harvest prm (total_resrc a) ts resrc_avail
                 else Inr (ts, resrc_avail, 0)) of
             Inl e \<Rightarrow> Inl e
           | Inr (ts, resrc_avail, rounds) \<Rightarrow>
               if is_almost_empty resrc_avail then Inr (Fin 0, a\<lparr>tenants := ts\<rparr>, rounds)
               else
                 (case do_redistribute (policy a) (total_resrc a) ts resrc_avail of
                    Inl e \<Rightarrow> Inl e
                  | Inr (improve_ratio, ts, resrc_avail) \<Rightarrow>
                      Inr (improve_ratio, a\<lparr>tenants := ts\<rparr>, rounds))))"

definition do_alloc_traced :: "params \<Rightarrow> Allocator \<Rightarrow> (fault + (xreal \<times> Allocator \<times> nat)) option" where
  "do_alloc_traced prm a =
     (if length (tenants a) \<le> 1 then Some (Inr (Fin 0, a, 0))
      else
        (case (if memshare (policy a) then do_memshare prm (tenants a)
               else Some (Inr (tenants a))) of
           None \<Rightarrow> None
         | Some (Inl e) \<Rightarrow> Some (Inl e)
         | Some (Inr ts) \<Rightarrow> Some (alloc_phases prm a ts)))"

definition do_alloc :: "params \<Rightarrow> Allocator \<Rightarrow> (fault + (xreal \<times> Allocator)) option" where
  "do_alloc prm a =
     (case do_alloc_traced prm a of
        None \<Rightarrow> None
      | Some (Inl e) \<Rightarrow> Some (Inl e)
      | Some (Inr (improve_ratio, a', rounds)) \<Rightarrow> Some (Inr (improve_ratio, a')))"

section \<open>Notions used in the statements and proofs about the allocator\<close>

text \<open>
  The part of a tenant that the predictions of trading leave alone, and the sums of
  the three stateless resources and of the cache over the tenants.
\<close>

definition core ::
  "Tenant \<Rightarrow> nat \<times> StatelessResrcVec \<times> ResrcVec \<times> real \<times> nat \<times> real \<times> real" where
  "core t = (t_idx t, demand_cacheless t, resrc t, net_bw_alpha t, reserved_cache_size t,
             mr_inc_if_more_cache t, mr_dec_if_less_cache t)"

definition rcu_of :: "Tenant \<Rightarrow> real" where
  "rcu_of t = db_rcu (stateless (resrc t))"

definition wcu_of :: "Tenant \<Rightarrow> real" where
  "wcu_of t = db_wcu (stateless (resrc t))"

definition net_of :: "Tenant \<Rightarrow> real" where
  "net_of t = net_bw (stateless (resrc t))"

definition cache_of :: "Tenant \<Rightarrow> nat" where
  "cache_of t = cache_size (resrc t)"

definition total_cache :: "Tenant list \<Rightarrow> nat" where
  "total_cache ts = sum_list (map cache_of ts)"

text \<open>
  With \<open>alloc_total_net_bw\<close> off, the two net-bandwidth offers of a tenant are never
  given a value other than 0; they are 0 from the constructor on.
\<close>

definition net_offers_zero :: "params \<Rightarrow> Tenant list \<Rightarrow> bool" where
  "net_offers_zero prm ts \<longleftrightarrow>
     alloc_total_net_bw prm
     \<or> list_all (\<lambda>t. net_delta_relinq t = 0 \<and> net_delta_compen t = 0) ts"

text \<open>
  The bookkeeping of an allocator is consistent when \<open>total_resrc\<close> holds the sum of
  the stateless resources of its tenants, as \<open>add_tenant\<close> keeps it.
\<close>

definition alloc_consistent :: "params \<Rightarrow> Allocator \<Rightarrow> bool" where
  "alloc_consistent prm a \<longleftrightarrow>
     aggregate_resrc (tenants a) = stateless (total_resrc a)
     \<and> net_offers_zero prm (tenants a)"

text \<open>Every tenant holds its reserved cache.\<close>

definition reserved_floor :: "Tenant list \<Rightarrow> bool" where
  "reserved_floor ts = list_all (\<lambda>t. reserved_cache_size t \<le> cache_size (resrc t)) ts"

text \<open>A property of the result of a computation that may end in a fault.\<close>

definition keeps :: "('a \<Rightarrow> bool) \<Rightarrow> fault + 'a \<Rightarrow> bool" where
  "keeps P m \<longleftrightarrow> (\<forall>y. m = Inr y \<longrightarrow> P y)"

text \<open>
  A list of pointers into a vector of \<open>n\<close> tenants, and what holds of the variables
  of \<open>do_harvest\<close> in every round of its loop.
\<close>

definition ptr_list :: "nat \<Rightarrow> nat list \<Rightarrow> bool" where
  "ptr_list n l \<longleftrightarrow> length l = n \<and> list_all (\<lambda>p. p < n) l"

definition harvest_inv :: "params \<Rightarrow> nat \<Rightarrow> harvest_state \<Rightarrow> bool" where
  "harvest_inv prm n st \<longleftrightarrow>
     length (h_tenants st) = n \<and> 2 \<le> n
     \<and> ptr_list n (rcu_relinq_list st) \<and> ptr_list n (rcu_compen_list st)
     \<and> (alloc_total_net_bw prm \<longrightarrow>
          ptr_list n (net_relinq_list st) \<and> ptr_list n (net_compen_list st))
     \<and> net_offers_zero prm (h_tenants st)"

text \<open>What the memshare phase has no business with: the stateless side of a tenant.\<close>

definition stateless_view :: "Tenant \<Rightarrow> StatelessResrcVec \<times> real \<times> real" where
  "stateless_view t = (stateless (resrc t), net_delta_relinq t, net_delta_compen t)"

section \<open>The scenarios of the test suite (alloc/engine/tests/test\_alloc.cpp)\<close>






section \<open>Proofs: computations with faults\<close>

lemma ebind_simps [simp]:
  "ebind (Inl e) f = Inl e"
  "ebind (Inr x) f = f x"
  by (simp_all add: ebind_def)

lemma ebind_eq_Inr:
  "ebind m f = Inr y \<longleftrightarrow> (\<exists>x. m = Inr x \<and> f x = Inr y)"
  by (cases m) simp_all

lemma finite_or_fault_eq [simp]:
  "finite_or_fault x = Inr r \<longleftrightarrow> x = Fin r"
  by (cases x) (simp_all add: finite_or_fault_def)


lemma vec_plus_simps [simp]:
  "db_rcu (vec_plus a b) = db_rcu a + db_rcu b"
  "db_wcu (vec_plus a b) = db_wcu a + db_wcu b"
  "net_bw (vec_plus a b) = net_bw a + net_bw b"
  by (simp_all add: vec_plus_def)

lemma vec_minus_simps [simp]:
  "db_rcu (vec_minus a b) = db_rcu a - db_rcu b"
  "db_wcu (vec_minus a b) = db_wcu a - db_wcu b"
  "net_bw (vec_minus a b) = net_bw a - net_bw b"
  by (simp_all add: vec_minus_def)

lemma vec_times_simps [simp]:
  "db_rcu (vec_times a k) = db_rcu a * k"
  "db_wcu (vec_times a k) = db_wcu a * k"
  "net_bw (vec_times a k) = net_bw a * k"
  by (simp_all add: vec_times_def)

lemma empty_vec_simps [simp]:
  "db_rcu empty_vec = 0" "db_wcu empty_vec = 0" "net_bw empty_vec = 0"
  by (simp_all add: empty_vec_def)

section \<open>Proofs: inflight registry\<close>

lemma map_find_erase:
  "map_find (map_erase m key) k = (if k = key then None else map_find m k)"
  unfolding map_find_def map_erase_def
  by (induction m) auto

lemma distinct_map_erase:
  "distinct (map fst m) \<Longrightarrow> distinct (map fst (map_erase m key))"
  unfolding map_erase_def
  by (induction m) auto

lemma keys_map_assign_present:
  "map (fst \<circ> (\<lambda>e. if fst e = key then (key, t) else e)) m = map fst m"
  by (induction m) auto

lemma distinct_map_assign:
  "distinct (map fst m) \<Longrightarrow> distinct (map fst (map_assign m key t))"
proof (cases "map_contains m key")
  case True
  assume "distinct (map fst m)"
  with True show ?thesis
    by (simp add: map_assign_def keys_map_assign_present)
next
  case False
  assume d: "distinct (map fst m)"
  from False have "key \<notin> fst ` set m"
    by (simp add: map_contains_def map_find_def map_of_eq_None_iff)
  with d False show ?thesis
    by (simp add: map_assign_def)
qed

lemma entries_of_distinct:
  "distinct (map fst m) \<Longrightarrow> entries_of m key \<le> 1"
  unfolding entries_of_def
proof (induction m)
  case Nil
  then show ?case by simp
next
  case (Cons e m)
  have "fst e \<notin> fst ` set m"
    using Cons.prems by simp
  then have "fst e = key \<Longrightarrow> filter (\<lambda>e. fst e = key) m = []"
    by (auto simp: filter_empty_conv intro: rev_image_eqI)
  with Cons show ?case by auto
qed

text \<open>
  C8. With inflight deduplication enabled, \<open>end_inflight key t\<close> returns true and
  removes the entry of \<open>key\<close> exactly when the registry maps \<open>key\<close> to the task
  \<open>t\<close>; when \<open>key\<close> is unmapped or mapped to another task it returns false and
  leaves the registry as it is; \<open>invalidate_inflight key\<close> removes the entry of
  \<open>key\<close> whatever it is and touches no other key; and every operation that changes the
  registry keeps it at one entry per key at most.
\<close>

theorem C8_inflight_registry:
  "(map_find m key = Some t \<longrightarrow>
      fst (end_inflight True m key t) = True
      \<and> map_find (snd (end_inflight True m key t)) key = None
      \<and> (\<forall>k. k \<noteq> key \<longrightarrow> map_find (snd (end_inflight True m key t)) k = map_find m k))
   \<and> (map_find m key \<noteq> Some t \<longrightarrow> end_inflight True m key t = (False, m))
   \<and> map_find (invalidate_inflight True m key) key = None
   \<and> (\<forall>k. k \<noteq> key \<longrightarrow> map_find (invalidate_inflight True m key) k = map_find m k)
   \<and> (one_entry_per_key m \<longrightarrow>
        one_entry_per_key (begin_inflight True m key t)
        \<and> one_entry_per_key (snd (end_inflight True m key t))
        \<and> one_entry_per_key (invalidate_inflight True m key)
        \<and> entries_of m key \<le> 1)"
proof -
  have a: "map_find m key = Some t \<Longrightarrow> end_inflight True m key t = (True, map_erase m key)"
    by (simp add: end_inflight_def)
  have b: "map_find m key \<noteq> Some t \<Longrightarrow> end_inflight True m key t = (False, m)"
    by (cases "map_find m key") (auto simp: end_inflight_def)
  have c: "one_entry_per_key m \<Longrightarrow> one_entry_per_key (snd (end_inflight True m key t))"
    by (cases "map_find m key = Some t")
       (auto simp: a b one_entry_per_key_def distinct_map_erase)
  have d: "one_entry_per_key m \<Longrightarrow> entries_of m key \<le> 1"
    using entries_of_distinct [of m key] by (simp add: one_entry_per_key_def)
  show ?thesis
    using b c d
    by (auto simp: a map_find_erase invalidate_inflight_def begin_inflight_def
        one_entry_per_key_def distinct_map_erase distinct_map_assign)
qed

theorem C8_inflight_registry_witness:
  "end_inflight True [(''k1'', 7), (''k2'', 9)] ''k1'' 7 = (True, [(''k2'', 9)])
   \<and> end_inflight True [(''k1'', 7), (''k2'', 9)] ''k1'' 8 = (False, [(''k1'', 7), (''k2'', 9)])
   \<and> end_inflight True [(''k1'', 7), (''k2'', 9)] ''k3'' 7 = (False, [(''k1'', 7), (''k2'', 9)])
   \<and> invalidate_inflight True [(''k1'', 7), (''k2'', 9)] ''k2'' = [(''k1'', 7)]
   \<and> one_entry_per_key (begin_inflight True [(''k1'', 7), (''k2'', 9)] ''k1'' 8)
   \<and> map_find (snd (end_inflight True [(''k1'', 7), (''k2'', 9)] ''k1'' 7)) ''k2'' = Some 9"
  using C8_inflight_registry [of "[(''k1'', 7), (''k2'', 9)]" "''k1''" 7]
    C8_inflight_registry [of "[(''k1'', 7), (''k2'', 9)]" "''k1''" 8]
  by (simp add: end_inflight_def invalidate_inflight_def begin_inflight_def map_find_def
      map_erase_def map_assign_def map_contains_def one_entry_per_key_def)

section \<open>Proofs: request pipeline\<close>

lemma emit_fields [simp]:
  "cache (emit e s) = cache s"
  "inflight (emit e s) = inflight s"
  "task_set_queue (emit e s) = task_set_queue s"
  "trace (emit e s) = trace s @ [e]"
  by (simp_all add: emit_def)

lemma unblock_all_fields [simp]:
  "cache (unblock_all bcs d s) = cache s"
  "inflight (unblock_all bcs d s) = inflight s"
  "task_set_queue (unblock_all bcs d s) = task_set_queue s"
  "trace (unblock_all bcs d s) = trace s @ map (\<lambda>bc. UnblockClient bc d) bcs"
  by (induction bcs arbitrary: s) simp_all

lemma end_inflight_call_fields [simp]:
  "cache (snd (end_inflight_call cfg key tp s)) = cache s"
  "task_set_queue (snd (end_inflight_call cfg key tp s)) = task_set_queue s"
  "trace (snd (end_inflight_call cfg key tp s)) = trace s @ [Inflight_end key tp]"
  "fst (end_inflight_call cfg key tp s) = fst (end_inflight (enable_inflight_dedup cfg) (inflight s) key tp)"
  "inflight (snd (end_inflight_call cfg key tp s)) = snd (end_inflight (enable_inflight_dedup cfg) (inflight s) key tp)"
  by (simp_all add: end_inflight_call_def split: prod.splits)

text \<open>
  C9. When the task of a GET comes back with status \<open>ERR\<close>, the completion callback
  leaves the cache as it was, whatever \<open>end_inflight\<close> returned; it wakes every
  dependent with a null payload and replies the error \<open>ERR Fail to get from DynamoDB\<close>
  to the client of the task; and a dependent woken with a null payload receives the
  same error reply and no value, with the cache untouched.
\<close>

theorem C9_get_error_no_cache_write:
  "get_status t = ERR \<longrightarrow>
     cache (storage_callback cfg argv tp t s) = cache s
     \<and> trace (storage_callback cfg argv tp t s)
         = trace s @ [Inflight_end (get_key t) tp]
           @ map (\<lambda>bc. UnblockClient bc Nullptr) (dependents t)
           @ [ReplyWithError (get_client t) ''ERR Fail to get from DynamoDB'']
     \<and> (\<forall>bc \<in> set (dependents t).
           UnblockClient bc Nullptr \<in> set (trace (storage_callback cfg argv tp t s))
           \<and> (\<forall>v. UnblockClient bc (StringData v) \<notin> set (trace (storage_callback cfg argv tp t s)) - set (trace s))
           \<and> trace (inflight_callback argv' bc Nullptr s')
               = trace s' @ [ReplyWithError bc ''ERR Fail to get from DynamoDB'']
           \<and> cache (inflight_callback argv' bc Nullptr s') = cache s')"
  by (auto simp: storage_callback_def inflight_callback_def Let_def split_beta)

theorem C9_get_error_no_cache_write_witness:
  "get_status \<lparr> get_status = ERR, get_client = 1, get_key = ''k'', get_value = ''Fail'',
       dependents = [2, 3] \<rparr> = ERR
   \<and> fst (end_inflight True [(''k'', 5)] ''k'' 5)
   \<and> cache (storage_callback (repo_config False) [''GET'', ''k'']  5
        \<lparr> get_status = ERR, get_client = 1, get_key = ''k'', get_value = ''Fail'',
          dependents = [2, 3] \<rparr>
        \<lparr> cache = (\<lambda>_. None), inflight = [(''k'', 5)], task_set_queue = [], trace = [] \<rparr>) ''k''
      = None
   \<and> trace (storage_callback (repo_config False) [''GET'', ''k'']  5
        \<lparr> get_status = ERR, get_client = 1, get_key = ''k'', get_value = ''Fail'',
          dependents = [2, 3] \<rparr>
        \<lparr> cache = (\<lambda>_. None), inflight = [(''k'', 5)], task_set_queue = [], trace = [] \<rparr>)
      = [Inflight_end ''k'' 5, UnblockClient 2 Nullptr, UnblockClient 3 Nullptr,
         ReplyWithError 1 ''ERR Fail to get from DynamoDB'']"
  using C9_get_error_no_cache_write [of
      "\<lparr> get_status = ERR, get_client = 1, get_key = ''k'', get_value = ''Fail'', dependents = [2, 3] \<rparr>"
      "repo_config False" "[''GET'', ''k'']" 5
      "\<lparr> cache = (\<lambda>_. None), inflight = [(''k'', 5)], task_set_queue = [], trace = [] \<rparr>"]
  by (simp add: end_inflight_def map_find_def)

text \<open>
  C10. A SET whose key is absent from the cache while \<open>cache.admit_write\<close> is false
  leaves the cache and the inflight registry as they were and does not call
  \<open>invalidate_inflight\<close>, so that the task of an outstanding GET on the key, when it
  completes with status \<open>OK\<close>, still writes its value into the cache; the client is
  blocked, the ghost cache is accessed (without a miss-ratio update), the statistics
  and the egress limiter are charged, and the Set task is put on the queue of the
  storage worker.
\<close>

theorem C10_set_not_admitted_frame:
  "length argv = 3 \<and> cache s (argv ! 1) = None \<and> \<not> admit_write cfg \<longrightarrow>
     cache (HopperSet cfg ctx argv s) = cache s
     \<and> inflight (HopperSet cfg ctx argv s) = inflight s
     \<and> (\<forall>k. Inflight_invalidate k \<notin> set (trace (HopperSet cfg ctx argv s)) - set (trace s))
     \<and> task_set_queue (HopperSet cfg ctx argv s)
         = task_set_queue s
           @ [\<lparr> set_status = NONE, set_client = ctx, set_key = argv ! 1, set_value = argv ! 2 \<rparr>]
     \<and> trace (HopperSet cfg ctx argv s)
         = trace s
           @ [BlockClient ctx Set_reply_callback,
              Ghost_access_key (argv ! 1) (length (argv ! 2)) False,
              Stats_record_set_done (length (argv ! 1)) (length (argv ! 2)),
              Network_wait_until_can_send,
              Network_consume
                (if policy_alloc_total_net_bw cfg
                 then kv_to_net_set_client (length (argv ! 1)) (length (argv ! 2))
                      + kv_to_net_set_storage (length (argv ! 1)) (length (argv ! 2))
                 else kv_to_net_set_client (length (argv ! 1)) (length (argv ! 2)))]
     \<and> (\<forall>tp t. map_find (inflight s) (argv ! 1) = Some tp \<and> get_key t = argv ! 1
                \<and> get_status t = OK \<longrightarrow>
            cache (storage_callback cfg [''GET'', argv ! 1] tp t (HopperSet cfg ctx argv s)) (argv ! 1)
              = Some (StringValue (get_value t)))"
proof (intro impI)
  assume a: "length argv = 3 \<and> cache s (argv ! 1) = None \<and> \<not> admit_write cfg"
  then have kt: "KeyType s (argv ! 1) = KEYTYPE_EMPTY"
    by (simp add: KeyType_def)
  have hs: "HopperSet cfg ctx argv s = HopperSet_submit cfg ctx argv s"
    using a kt by (simp add: HopperSet_def)
  have c: "cache (HopperSet_submit cfg ctx argv s) = cache s"
    and i: "inflight (HopperSet_submit cfg ctx argv s) = inflight s"
    by (simp_all add: HopperSet_submit_def Let_def)
  have q: "task_set_queue (HopperSet_submit cfg ctx argv s)
         = task_set_queue s
           @ [\<lparr> set_status = NONE, set_client = ctx, set_key = argv ! 1, set_value = argv ! 2 \<rparr>]"
    by (simp add: HopperSet_submit_def Let_def)
  have tr: "trace (HopperSet_submit cfg ctx argv s)
         = trace s
           @ [BlockClient ctx Set_reply_callback,
              Ghost_access_key (argv ! 1) (length (argv ! 2)) False,
              Stats_record_set_done (length (argv ! 1)) (length (argv ! 2)),
              Network_wait_until_can_send,
              Network_consume
                (if policy_alloc_total_net_bw cfg
                 then kv_to_net_set_client (length (argv ! 1)) (length (argv ! 2))
                      + kv_to_net_set_storage (length (argv ! 1)) (length (argv ! 2))
                 else kv_to_net_set_client (length (argv ! 1)) (length (argv ! 2)))]"
    by (simp add: HopperSet_submit_def Let_def)
  have g: "\<And>tp t. map_find (inflight s) (argv ! 1) = Some tp \<Longrightarrow> get_key t = argv ! 1
                \<Longrightarrow> get_status t = OK \<Longrightarrow>
            cache (storage_callback cfg [''GET'', argv ! 1] tp t (HopperSet_submit cfg ctx argv s)) (argv ! 1)
              = Some (StringValue (get_value t))"
    by (simp add: storage_callback_def Let_def split_beta i end_inflight_def StringSet_def)
  have ni: "\<And>k. Inflight_invalidate k \<notin> set (trace (HopperSet_submit cfg ctx argv s)) - set (trace s)"
    unfolding tr by simp
  show "cache (HopperSet cfg ctx argv s) = cache s
     \<and> inflight (HopperSet cfg ctx argv s) = inflight s
     \<and> (\<forall>k. Inflight_invalidate k \<notin> set (trace (HopperSet cfg ctx argv s)) - set (trace s))
     \<and> task_set_queue (HopperSet cfg ctx argv s)
         = task_set_queue s
           @ [\<lparr> set_status = NONE, set_client = ctx, set_key = argv ! 1, set_value = argv ! 2 \<rparr>]
     \<and> trace (HopperSet cfg ctx argv s)
         = trace s
           @ [BlockClient ctx Set_reply_callback,
              Ghost_access_key (argv ! 1) (length (argv ! 2)) False,
              Stats_record_set_done (length (argv ! 1)) (length (argv ! 2)),
              Network_wait_until_can_send,
              Network_consume
                (if policy_alloc_total_net_bw cfg
                 then kv_to_net_set_client (length (argv ! 1)) (length (argv ! 2))
                      + kv_to_net_set_storage (length (argv ! 1)) (length (argv ! 2))
                 else kv_to_net_set_client (length (argv ! 1)) (length (argv ! 2)))]
     \<and> (\<forall>tp t. map_find (inflight s) (argv ! 1) = Some tp \<and> get_key t = argv ! 1
                \<and> get_status t = OK \<longrightarrow>
            cache (storage_callback cfg [''GET'', argv ! 1] tp t (HopperSet cfg ctx argv s)) (argv ! 1)
              = Some (StringValue (get_value t)))"
    unfolding hs using c i q tr g ni by blast
qed

theorem C10_set_not_admitted_frame_witness:
  "length [''SET'', ''k'', ''v2''] = 3
   \<and> cache \<lparr> cache = (\<lambda>_. None), inflight = [(''k'', 5)], task_set_queue = [], trace = [] \<rparr>
        ([''SET'', ''k'', ''v2''] ! 1) = None
   \<and> \<not> admit_write (repo_config False)
   \<and> cache (HopperSet (repo_config False) 4 [''SET'', ''k'', ''v2'']
        \<lparr> cache = (\<lambda>_. None), inflight = [(''k'', 5)], task_set_queue = [], trace = [] \<rparr>) ''k''
      = None
   \<and> inflight (HopperSet (repo_config False) 4 [''SET'', ''k'', ''v2'']
        \<lparr> cache = (\<lambda>_. None), inflight = [(''k'', 5)], task_set_queue = [], trace = [] \<rparr>)
      = [(''k'', 5)]
   \<and> trace (HopperSet (repo_config False) 4 [''SET'', ''k'', ''v2'']
        \<lparr> cache = (\<lambda>_. None), inflight = [(''k'', 5)], task_set_queue = [], trace = [] \<rparr>)
      = [BlockClient 4 Set_reply_callback, Ghost_access_key ''k'' 2 False,
         Stats_record_set_done 1 2, Network_wait_until_can_send, Network_consume 6]
   \<and> task_set_queue (HopperSet (repo_config False) 4 [''SET'', ''k'', ''v2'']
        \<lparr> cache = (\<lambda>_. None), inflight = [(''k'', 5)], task_set_queue = [], trace = [] \<rparr>)
      = [\<lparr> set_status = NONE, set_client = 4, set_key = ''k'', set_value = ''v2'' \<rparr>]"
  using C10_set_not_admitted_frame [of "[''SET'', ''k'', ''v2'']"
      "\<lparr> cache = (\<lambda>_. None), inflight = [(''k'', 5)], task_set_queue = [], trace = [] \<rparr>"
      "repo_config False" 4]
  by (simp add: repo_config_def kv_to_net_set_client_def kv_to_net_set_storage_def)

section \<open>Proofs: miss-ratio curve\<close>

lemma vec_back_ne [simp]: "xs \<noteq> [] \<Longrightarrow> vec_back xs = Inr (last xs)"
  by (simp add: vec_back_def)

lemma vec_front_ne [simp]: "xs \<noteq> [] \<Longrightarrow> vec_front xs = Inr (hd xs)"
  by (cases xs) (simp_all add: vec_front_def)

lemma vec_at_in [simp]: "i < length xs \<Longrightarrow> vec_at xs i = Inr (xs ! i)"
  by (simp add: vec_at_def)


lemma lower_bound_ge: "lower_bound xs v < length xs \<Longrightarrow> v \<le> xs ! lower_bound xs v"
  unfolding lower_bound_def
  using nth_length_takeWhile [of "\<lambda>t. t < v" xs] by auto

lemma lower_bound_before: "j < lower_bound xs v \<Longrightarrow> xs ! j < v"
  unfolding lower_bound_def
  using nth_mem [of j "takeWhile (\<lambda>t. t < v) xs"] takeWhile_nth [of j "\<lambda>t. t < v" xs]
  by (auto dest: set_takeWhileD)

lemma lower_bound_exact:
  assumes "sorted_wrt (<) xs" "i < length xs"
  shows "lower_bound xs (xs ! i) = i"
proof -
  let ?k = "lower_bound xs (xs ! i)"
  have "\<not> i < ?k" using lower_bound_before [of i xs "xs ! i"] by auto
  then have k: "?k \<le> i" by simp
  then have kl: "?k < length xs" using assms by simp
  have "\<not> ?k < i"
  proof
    assume "?k < i"
    then have "xs ! ?k < xs ! i" using assms by (simp add: sorted_wrt_nth_less)
    with lower_bound_ge [OF kl] show False by simp
  qed
  with k show ?thesis by simp
qed



lemma hd_le_last_strict: "sorted_wrt (<) (xs::nat list) \<Longrightarrow> xs \<noteq> [] \<Longrightarrow> hd xs \<le> last xs"
  by (cases xs) (auto simp: less_imp_le)

text \<open>
  C6 (as amended). For every well-formed curve and every query size strictly greater
  than the last anchor tick, \<open>get_miss_ratio_const\<close> returns the miss ratio of the
  last anchor when conservative out-of-range estimation is enabled, and raises the
  runtime error \<open>cache_size out of range\<close> when it is disabled; at a query size equal
  to the last tick it returns the miss ratio of the last anchor in both modes.
\<close>

theorem C6_out_of_range_amended:
  assumes "wf_mrc c"
  shows "(last (ticks c) < q \<longrightarrow>
            get_miss_ratio_const prm c q =
              (if conservative_estimation_if_out_of_range prm
               then Inr (last (miss_ratios c))
               else Inl (RuntimeError ''cache_size out of range'')))
         \<and> get_miss_ratio_const prm c (last (ticks c)) = Inr (last (miss_ratios c))"
proof -
  from assms have ne: "ticks c \<noteq> []" "miss_ratios c \<noteq> []"
    and len: "length (ticks c) = length (miss_ratios c)"
    and st: "sorted_wrt (<) (ticks c)"
    by (auto simp: wf_mrc_def)
  let ?n = "length (ticks c)"
  have lst: "last (ticks c) = ticks c ! (?n - 1)" using ne by (simp add: last_conv_nth)
  have i: "lower_bound (ticks c) (last (ticks c)) = ?n - 1"
    unfolding lst using st ne by (intro lower_bound_exact) auto
  have mi: "miss_ratios c ! (?n - 1) = last (miss_ratios c)"
    using ne len by (simp add: last_conv_nth)
  have hd_le: "hd (ticks c) \<le> last (ticks c)"
    using ne st by (rule_tac hd_le_last_strict)
  have n: "?n - 1 < ?n" "?n - 1 < length (miss_ratios c)" using ne len by auto
  show ?thesis
    using ne i mi hd_le n lst
    by (auto simp: get_miss_ratio_const_def Let_def)
qed



theorem C6_out_of_range_amended_witness:
  "wf_mrc (mk_mrc [10, 20] [9 / 10, 8 / 10])
   \<and> last (ticks (mk_mrc [10, 20] [9 / 10, 8 / 10])) < 30
   \<and> get_miss_ratio_const repo_params (mk_mrc [10, 20] [9 / 10, 8 / 10]) 30 = Inr (8 / 10)
   \<and> get_miss_ratio_const (repo_params\<lparr>conservative_estimation_if_out_of_range := False\<rparr>)
         (mk_mrc [10, 20] [9 / 10, 8 / 10]) 30 = Inl (RuntimeError ''cache_size out of range'')"
proof -
  have wf: "wf_mrc (mk_mrc [10, 20] [9 / 10, 8 / 10])"
    by (simp add: wf_mrc_def mk_mrc_def)
  show ?thesis
    using wf C6_out_of_range_amended [OF wf, of 30 repo_params]
      C6_out_of_range_amended [OF wf, of 30 "repo_params\<lparr>conservative_estimation_if_out_of_range := False\<rparr>"]
    by (simp add: mk_mrc_def repo_params_def)
qed

text \<open>
  The claim as stated fails twice on the curve with anchors \<open>(10, 0.9)\<close> and
  \<open>(20, 0.8)\<close>: beyond the last tick the conservative estimate is the miss ratio of
  the last anchor, not \<open>mr_0\<close>; and at the last tick itself nothing is raised when
  the estimation is disabled.
\<close>

theorem C6_out_of_range_counterexample:
  "wf_mrc (mk_mrc [10, 20] [9 / 10, 8 / 10])
   \<and> 30 \<ge> last (ticks (mk_mrc [10, 20] [9 / 10, 8 / 10]))
   \<and> conservative_estimation_if_out_of_range repo_params
   \<and> get_miss_ratio_const repo_params (mk_mrc [10, 20] [9 / 10, 8 / 10]) 30
        \<noteq> Inr (hd (miss_ratios (mk_mrc [10, 20] [9 / 10, 8 / 10])))
   \<and> 20 \<ge> last (ticks (mk_mrc [10, 20] [9 / 10, 8 / 10]))
   \<and> get_miss_ratio_const (repo_params\<lparr>conservative_estimation_if_out_of_range := False\<rparr>)
         (mk_mrc [10, 20] [9 / 10, 8 / 10]) 20 = Inr (8 / 10)"
  by (simp add: wf_mrc_def mk_mrc_def repo_params_def get_miss_ratio_const_def
      vec_back_def vec_front_def vec_at_def lower_bound_def)






















section \<open>Proofs: tenant\<close>

lemma const_ignores_memo [simp]:
  "get_miss_ratio_const prm (c\<lparr>miss_ratio_map := m\<rparr>) k = get_miss_ratio_const prm c k"
  by (simp add: get_miss_ratio_const_def cong: if_cong)

lemma get_miss_ratio_Inr:
  assumes "get_miss_ratio prm c k = Inr (v, c')"
  shows "\<exists>m. c' = c\<lparr>miss_ratio_map := m\<rparr>"
proof (cases "miss_ratio_map c k")
  case None
  with assms show ?thesis by (auto simp: get_miss_ratio_def ebind_eq_Inr)
next
  case (Some a)
  with assms have "c' = c" by (simp add: get_miss_ratio_def)
  then have "c' = c\<lparr>miss_ratio_map := miss_ratio_map c\<rparr>" by simp
  then show ?thesis by blast
qed



lemma tenant_miss_ratio_Inr:
  assumes "tenant_miss_ratio prm t k = Inr (v, t')"
  shows "\<exists>m. t' = t\<lparr>mrc := (mrc t)\<lparr>miss_ratio_map := m\<rparr>\<rparr>"
proof -
  from assms obtain c where g: "get_miss_ratio prm (mrc t) k = Inr (v, c)" and t': "t' = t\<lparr>mrc := c\<rparr>"
    by (auto simp: tenant_miss_ratio_def ebind_eq_Inr)
  from get_miss_ratio_Inr [OF g] t' show ?thesis by auto
qed

lemma projected_demand_eq:
  "(let demand = demand_cacheless t;
        demand = demand\<lparr>db_rcu := db_rcu demand * mr\<rparr>;
        demand = (if alloc_total_net_bw prm
                  then demand\<lparr>net_bw := net_bw demand * (mr + ((1 - net_bw_alpha t) * (1 - mr)))\<rparr>
                  else demand)
    in f demand) = f (spec_projected_demand prm t mr)"
  by (cases "demand_cacheless t") (simp add: spec_projected_demand_def Let_def)

lemma spec_projected_demand_mrc [simp]:
  "spec_projected_demand prm (t\<lparr>mrc := c\<rparr>) mr = spec_projected_demand prm t mr"
  by (simp add: spec_projected_demand_def)

lemma collect_idle_alt:
  "collect_idle prm t =
     ebind (tenant_miss_ratio prm t (cache_size (resrc t))) (\<lambda>(mr, t).
       ebind (finite_or_fault (vec_div (stateless (resrc t)) (spec_projected_demand prm t mr))) (\<lambda>tp.
         Inr (vec_minus (stateless (resrc t)) (vec_times (spec_projected_demand prm t mr) tp),
              set_stateless (vec_times (spec_projected_demand prm t mr) tp) t)))"
  unfolding collect_idle_def projected_demand_eq by (simp add: Let_def)






section \<open>Proofs: what the operations of a tenant leave unchanged\<close>

lemma tenant_miss_ratio_frame:
  assumes "tenant_miss_ratio prm t k = Inr (v, t')"
  shows "core t' = core t" "rcu_delta_relinq t' = rcu_delta_relinq t"
    "rcu_delta_compen t' = rcu_delta_compen t" "net_delta_relinq t' = net_delta_relinq t"
    "net_delta_compen t' = net_delta_compen t"
  using tenant_miss_ratio_Inr [OF assms] by (auto simp: core_def)

lemma more_abort_offer_frame:
  "core (more_abort_offer prm t) = core t"
  "rcu_delta_compen (more_abort_offer prm t) = rcu_delta_compen t"
  "net_delta_compen (more_abort_offer prm t) = net_delta_compen t"
  "\<not> alloc_total_net_bw prm \<Longrightarrow> net_delta_relinq (more_abort_offer prm t) = net_delta_relinq t"
  by (simp_all add: more_abort_offer_def core_def Let_def)

lemma less_abort_offer_frame:
  "core (less_abort_offer prm t) = core t"
  "rcu_delta_relinq (less_abort_offer prm t) = rcu_delta_relinq t"
  "net_delta_relinq (less_abort_offer prm t) = net_delta_relinq t"
  "\<not> alloc_total_net_bw prm \<Longrightarrow> net_delta_compen (less_abort_offer prm t) = net_delta_compen t"
  by (simp_all add: less_abort_offer_def core_def Let_def)

lemma less_immediate_offer_frame:
  "core (less_immediate_offer prm t) = core t"
  "rcu_delta_relinq (less_immediate_offer prm t) = rcu_delta_relinq t"
  "net_delta_relinq (less_immediate_offer prm t) = net_delta_relinq t"
  "\<not> alloc_total_net_bw prm \<Longrightarrow> net_delta_compen (less_immediate_offer prm t) = net_delta_compen t"
  by (simp_all add: less_immediate_offer_def core_def Let_def)


lemma core_mrc [simp]: "core (t\<lparr>mrc := c\<rparr>) = core t"
  by (simp add: core_def)

lemma keepsD: "keeps P m \<Longrightarrow> m = Inr y \<Longrightarrow> P y"
  by (simp add: keeps_def)

lemma keeps_Inr: "P t \<Longrightarrow> keeps P (Inr t)"
  by (simp add: keeps_def)

lemma keeps_if: "(c \<Longrightarrow> keeps P a) \<Longrightarrow> (\<not> c \<Longrightarrow> keeps P b) \<Longrightarrow> keeps P (if c then a else b)"
  by simp

lemma keeps_Let: "keeps P (f x) \<Longrightarrow> keeps P (Let x f)"
  by simp

lemma keeps_ebind: "(\<And>x. m = Inr x \<Longrightarrow> keeps P (f x)) \<Longrightarrow> keeps P (ebind m f)"
  by (cases m) (simp_all add: keeps_def)

lemma keeps_tmr:
  assumes "\<And>v m. keeps P (f v (t\<lparr>mrc := (mrc t)\<lparr>miss_ratio_map := m\<rparr>\<rparr>))"
  shows "keeps P (ebind (tenant_miss_ratio prm t k) (\<lambda>(v, t1). f v t1))"
proof (rule keeps_ebind)
  fix x assume a: "tenant_miss_ratio prm t k = Inr x"
  obtain v t1 where x: "x = (v, t1)" by (cases x)
  from tenant_miss_ratio_Inr [OF a [unfolded x]] obtain m where "t1 = t\<lparr>mrc := (mrc t)\<lparr>miss_ratio_map := m\<rparr>\<rparr>"
    by blast
  with assms [of v m] x show "keeps P (case x of (v, t1) \<Rightarrow> f v t1)" by simp
qed

lemmas keeps_intros = keeps_tmr keeps_if keeps_Let keeps_ebind keeps_Inr

lemma pred_more_keeps:
  "keeps (\<lambda>t'. core t' = core t \<and> rcu_delta_compen t' = rcu_delta_compen t
     \<and> net_delta_compen t' = net_delta_compen t
     \<and> (\<not> alloc_total_net_bw prm \<longrightarrow> net_delta_relinq t' = net_delta_relinq t))
    (pred_rcu_net_delta_if_more_cache prm d t)"
  unfolding pred_rcu_net_delta_if_more_cache_def
  by (intro keeps_intros) (simp_all add: more_abort_offer_def core_def Let_def)

lemma pred_less_keeps:
  "keeps (\<lambda>t'. core t' = core t \<and> rcu_delta_relinq t' = rcu_delta_relinq t
     \<and> net_delta_relinq t' = net_delta_relinq t
     \<and> (\<not> alloc_total_net_bw prm \<longrightarrow> net_delta_compen t' = net_delta_compen t \<or> net_delta_compen t' = 0))
    (pred_rcu_net_delta_if_less_cache prm d t)"
  unfolding pred_rcu_net_delta_if_less_cache_def
  by (intro keeps_intros) (simp_all add: less_abort_offer_def less_immediate_offer_def core_def Let_def)

lemma update_rcu_net_delta_frame:
  assumes "update_rcu_net_delta prm t = Inr t'"
  shows "core t' = core t
     \<and> (\<not> alloc_total_net_bw prm \<longrightarrow> net_delta_relinq t' = net_delta_relinq t
          \<and> (net_delta_compen t' = net_delta_compen t \<or> net_delta_compen t' = 0))"
proof -
  from assms obtain t1 where a: "pred_rcu_net_delta_if_more_cache prm (cache_delta prm) t = Inr t1"
    and b: "pred_rcu_net_delta_if_less_cache prm (cache_delta prm) t1 = Inr t'"
    by (auto simp: update_rcu_net_delta_def ebind_eq_Inr)
  from keepsD [OF pred_more_keeps a] keepsD [OF pred_less_keeps b] show ?thesis by auto
qed

lemma update_mr_delta_frame:
  assumes "update_mr_delta prm t = Inr t'"
  shows "resrc t' = resrc t \<and> reserved_cache_size t' = reserved_cache_size t
     \<and> net_delta_relinq t' = net_delta_relinq t \<and> net_delta_compen t' = net_delta_compen t"
  using assms
  by (auto simp: update_mr_delta_def ebind_eq_Inr dest!: tenant_miss_ratio_Inr)

lemma collect_idle_frame:
  assumes "collect_idle prm t = Inr (idle, t')"
  shows "cache_size (resrc t') = cache_size (resrc t) \<and> reserved_cache_size t' = reserved_cache_size t
     \<and> net_delta_relinq t' = net_delta_relinq t \<and> net_delta_compen t' = net_delta_compen t
     \<and> rcu_of t' + db_rcu idle = rcu_of t
     \<and> wcu_of t' + db_wcu idle = wcu_of t
     \<and> net_of t' + net_bw idle = net_of t"
  using assms
  by (auto simp: collect_idle_alt ebind_eq_Inr set_stateless_def rcu_of_def wcu_of_def net_of_def
      dest!: tenant_miss_ratio_Inr)

section \<open>Proofs: sums over the tenants\<close>

lemma aggregate_from_sums:
  "db_rcu (aggregate_from acc ts) = db_rcu acc + sum_list (map rcu_of ts)
   \<and> db_wcu (aggregate_from acc ts) = db_wcu acc + sum_list (map wcu_of ts)
   \<and> net_bw (aggregate_from acc ts) = net_bw acc + sum_list (map net_of ts)"
  by (induction ts arbitrary: acc) (simp_all add: rcu_of_def wcu_of_def net_of_def)

lemma aggregate_resrc_sums [simp]:
  "db_rcu (aggregate_resrc ts) = sum_list (map rcu_of ts)"
  "db_wcu (aggregate_resrc ts) = sum_list (map wcu_of ts)"
  "net_bw (aggregate_resrc ts) = sum_list (map net_of ts)"
  using aggregate_from_sums [of empty_vec ts] by (simp_all add: aggregate_resrc_def empty_vec_def)

lemma vec_eqI:
  "db_rcu a = db_rcu b \<Longrightarrow> db_wcu a = db_wcu b \<Longrightarrow> net_bw a = net_bw b \<Longrightarrow> a = (b::StatelessResrcVec)"
  by simp

lemma sum_list_map_update:
  fixes f :: "'a \<Rightarrow> real"
  shows "i < length ts \<Longrightarrow> sum_list (map f (ts[i := x])) = sum_list (map f ts) - f (ts ! i) + f x"
proof (induction ts arbitrary: i)
  case Nil
  then show ?case by simp
next
  case (Cons t ts)
  then show ?case by (cases i) simp_all
qed

lemma for_each_tenant_all2:
  "for_each_tenant f ts = Inr ts' \<Longrightarrow> list_all2 (\<lambda>t t'. f t = Inr t') ts ts'"
proof (induction ts arbitrary: ts')
  case Nil
  then show ?case by simp
next
  case (Cons t ts)
  then show ?case by (auto split: sum.splits)
qed

lemma all2_map_eq:
  "list_all2 P ts ts' \<Longrightarrow> (\<And>t t'. P t t' \<Longrightarrow> g t' = g t) \<Longrightarrow> map g ts' = map g ts"
  by (induction rule: list_all2_induct) auto

lemma all2_list_all:
  "list_all2 P ts ts' \<Longrightarrow> list_all Q ts \<Longrightarrow> (\<And>t t'. P t t' \<Longrightarrow> Q t \<Longrightarrow> Q t') \<Longrightarrow> list_all Q ts'"
  by (induction rule: list_all2_induct) auto

lemma collect_all_all2:
  "collect_all prm ts avail = Inr (ts', avail') \<Longrightarrow>
     list_all2 (\<lambda>t t'. \<exists>idle. collect_idle prm t = Inr (idle, t')) ts ts'
     \<and> db_rcu avail' + sum_list (map rcu_of ts') = db_rcu avail + sum_list (map rcu_of ts)
     \<and> db_wcu avail' + sum_list (map wcu_of ts') = db_wcu avail + sum_list (map wcu_of ts)
     \<and> net_bw avail' + sum_list (map net_of ts') = net_bw avail + sum_list (map net_of ts)"
proof (induction ts arbitrary: ts' avail avail')
  case Nil
  then show ?case by simp
next
  case (Cons t ts)
  from Cons.prems obtain idle t1 ts1 where
    c: "collect_idle prm t = Inr (idle, t1)"
    and r: "collect_all prm ts (vec_plus avail idle) = Inr (ts1, avail')"
    and e: "ts' = t1 # ts1"
    by (auto split: sum.splits prod.splits)
  from collect_idle_frame [OF c] have s: "rcu_of t1 + db_rcu idle = rcu_of t"
    "wcu_of t1 + db_wcu idle = wcu_of t" "net_of t1 + net_bw idle = net_of t"
    by simp_all
  from Cons.IH [OF r] c e s show ?case by auto
qed

section \<open>Proofs: the harvest phase\<close>

lemma upd_length [simp]: "length (upd i g ts) = length ts"
  by (simp add: upd_def)

lemma upd_nth: "i < length ts \<Longrightarrow> upd i g ts ! j = (if j = i then g (ts ! i) else ts ! j)"
  by (simp add: upd_def)

lemma upd_sum:
  fixes f :: "Tenant \<Rightarrow> real"
  assumes "i < length ts" "f (g (ts ! i)) = f (ts ! i) + d"
  shows "sum_list (map f (upd i g ts)) = sum_list (map f ts) + d"
  using assms by (simp add: upd_def sum_list_map_update)

lemma setter_simps [simp]:
  "rcu_of (set_cache_size n t) = rcu_of t"
  "wcu_of (set_cache_size n t) = wcu_of t"
  "net_of (set_cache_size n t) = net_of t"
  "rcu_of (add_db_rcu x t) = rcu_of t + x"
  "wcu_of (add_db_rcu x t) = wcu_of t"
  "net_of (add_db_rcu x t) = net_of t"
  "rcu_of (add_net_bw x t) = rcu_of t"
  "wcu_of (add_net_bw x t) = wcu_of t"
  "net_of (add_net_bw x t) = net_of t + x"
  by (simp_all add: rcu_of_def wcu_of_def net_of_def set_cache_size_def add_db_rcu_def
      add_net_bw_def set_stateless_def)

lemma setter_offers [simp]:
  "net_delta_relinq (set_cache_size n t) = net_delta_relinq t"
  "net_delta_compen (set_cache_size n t) = net_delta_compen t"
  "net_delta_relinq (add_db_rcu x t) = net_delta_relinq t"
  "net_delta_compen (add_db_rcu x t) = net_delta_compen t"
  "net_delta_relinq (add_net_bw x t) = net_delta_relinq t"
  "net_delta_compen (add_net_bw x t) = net_delta_compen t"
  by (simp_all add: set_cache_size_def add_db_rcu_def add_net_bw_def set_stateless_def)

lemma relocate_resrc_length [simp]:
  "length (relocate_resrc prm r c a b x y ts) = length ts"
  by (simp add: relocate_resrc_def Let_def)

lemma relocate_resrc_sums:
  assumes r: "r < length ts" and c: "c < length ts"
  shows "sum_list (map rcu_of (relocate_resrc prm r c rr rc nr nc ts))
           = sum_list (map rcu_of ts) + rc - rr"
    and "sum_list (map wcu_of (relocate_resrc prm r c rr rc nr nc ts)) = sum_list (map wcu_of ts)"
    and "sum_list (map net_of (relocate_resrc prm r c rr rc nr nc ts))
           = sum_list (map net_of ts) + (if alloc_total_net_bw prm then nc - nr else 0)"
  using r c
  by (simp_all add: relocate_resrc_def Let_def upd_sum [where d = 0] upd_sum [where d = rc]
      upd_sum [where d = "- rr"] upd_sum [where d = nc] upd_sum [where d = "- nr"])

lemma list_all_upd:
  "list_all Q ts \<Longrightarrow> (\<And>t. Q t \<Longrightarrow> Q (g t)) \<Longrightarrow> list_all Q (upd i g ts)"
  by (cases "i < length ts") (auto simp: upd_def list_all_length nth_list_update)

lemma relocate_resrc_offers:
  assumes "list_all (\<lambda>t. net_delta_relinq t = 0 \<and> net_delta_compen t = 0) ts"
  shows "list_all (\<lambda>t. net_delta_relinq t = 0 \<and> net_delta_compen t = 0)
           (relocate_resrc prm r c rr rc nr nc ts)"
  using assms unfolding relocate_resrc_def Let_def
  by (auto intro!: list_all_upd)

lemma max_element_from_bound:
  "pos < i \<Longrightarrow> max_element_from lt x pos i xs < i + length xs"
proof (induction xs arbitrary: x pos i)
  case Nil
  then show ?case by simp
next
  case (Cons a xs)
  from Cons.IH [of i "Suc i" a] Cons.IH [of pos "Suc i" x] Cons.prems
  show ?case by simp
qed

lemma min_element_from_bound:
  "pos < i \<Longrightarrow> min_element_from lt x pos i xs < i + length xs"
proof (induction xs arbitrary: x pos i)
  case Nil
  then show ?case by simp
next
  case (Cons a xs)
  from Cons.IH [of i "Suc i" a] Cons.IH [of pos "Suc i" x] Cons.prems
  show ?case by simp
qed

lemma max_element_bound: "xs \<noteq> [] \<Longrightarrow> max_element lt xs < length xs"
  using max_element_from_bound [of 0 1 lt "hd xs" "tl xs"]
  by (cases xs) (simp_all add: max_element_def)

lemma min_element_bound: "xs \<noteq> [] \<Longrightarrow> min_element lt xs < length xs"
  using min_element_from_bound [of 0 1 lt "hd xs" "tl xs"]
  by (cases xs) (simp_all add: min_element_def)

lemma ptr_list_nth: "ptr_list n l \<Longrightarrow> i < n \<Longrightarrow> l ! i < n"
  by (simp add: ptr_list_def list_all_length)

lemma ptr_list_iter_swap:
  assumes "ptr_list n l" "i < n" "j < n"
  shows "ptr_list n (iter_swap i j l)"
  using assms
  by (auto simp: ptr_list_def iter_swap_def list_all_length nth_list_update)

lemma ptr_list_upt: "ptr_list n [0 ..< n]"
  by (simp add: ptr_list_def list_all_length)

lemma pick_from_lists:
  assumes l1: "ptr_list n relinq" and l2: "ptr_list n compen" and n: "2 \<le> n"
  shows "relinq ! max_element lt1 relinq < n"
    and "compen ! min_element lt2 compen < n"
    and "ptr_list n (iter_swap (min_element lt2 compen) 0 compen)"
    and "iter_swap (min_element lt2 compen) 0 compen
           ! (1 + min_element lt2 (tl (iter_swap (min_element lt2 compen) 0 compen))) < n"
proof -
  from l1 l2 n have ne: "relinq \<noteq> []" "compen \<noteq> []" by (auto simp: ptr_list_def)
  from l1 l2 have len: "length relinq = n" "length compen = n" by (auto simp: ptr_list_def)
  show "relinq ! max_element lt1 relinq < n"
    using ptr_list_nth [OF l1] max_element_bound [OF ne(1), of lt1] len by simp
  have mb: "min_element lt2 compen < n"
    using min_element_bound [OF ne(2), of lt2] len by simp
  show "compen ! min_element lt2 compen < n"
    using ptr_list_nth [OF l2 mb] .
  let ?l = "iter_swap (min_element lt2 compen) 0 compen"
  show sw: "ptr_list n ?l"
    using ptr_list_iter_swap [OF l2 mb] n by simp
  then have tll: "length (tl ?l) = n - 1" by (simp add: ptr_list_def)
  with n have "length (tl ?l) \<noteq> 0" by simp
  then have "tl ?l \<noteq> []" by (simp only: length_0_conv not_False_eq_True)
  from min_element_bound [OF this, of lt2] tll
  have "1 + min_element lt2 (tl ?l) < n" by simp
  then show "?l ! (1 + min_element lt2 (tl ?l)) < n"
    using ptr_list_nth [OF sw] by blast
qed

lemma pick_deal_valid:
  assumes inv: "harvest_inv prm n st" and p: "pick_deal prm st = Some (r, c, st')"
  shows "r < n \<and> c < n \<and> harvest_inv prm n st'
     \<and> h_tenants st' = h_tenants st \<and> h_avail st' = h_avail st
     \<and> prev_estimated_improve_ratio st' = prev_estimated_improve_ratio st"
proof (cases "is_rcu_bottleneck st")
  case True
  from inv have l: "ptr_list n (rcu_relinq_list st)" "ptr_list n (rcu_compen_list st)" "2 \<le> n"
    by (auto simp: harvest_inv_def)
  note pk = pick_from_lists [OF l]
  from p True pk inv show ?thesis
    by (auto simp: pick_deal_def Let_def harvest_inv_def split: if_splits)
next
  case False
  with p have f: "alloc_total_net_bw prm" "is_net_bottleneck st"
    by (auto simp: pick_deal_def Let_def split: if_splits)
  with inv have l: "ptr_list n (net_relinq_list st)" "ptr_list n (net_compen_list st)" "2 \<le> n"
    by (auto simp: harvest_inv_def)
  note pk = pick_from_lists [OF l]
  from p False f pk inv show ?thesis
    by (auto simp: pick_deal_def Let_def harvest_inv_def split: if_splits)
qed

lemma upd_fault_Inr:
  "upd_fault i f ts = Inr ts' \<Longrightarrow> \<exists>t'. f (ts ! i) = Inr t' \<and> ts' = ts[i := t']"
  by (auto simp: upd_fault_def ebind_eq_Inr)

lemma core_sums:
  assumes "core t' = core t"
  shows "rcu_of t' = rcu_of t" "wcu_of t' = wcu_of t" "net_of t' = net_of t"
    "cache_size (resrc t') = cache_size (resrc t)" "reserved_cache_size t' = reserved_cache_size t"
  using assms by (simp_all add: core_def rcu_of_def wcu_of_def net_of_def)

lemma update_at_sums:
  assumes u: "upd_fault i (update_rcu_net_delta prm) ts = Inr ts'" and i: "i < length ts"
  shows "length ts' = length ts"
    and "sum_list (map rcu_of ts') = sum_list (map rcu_of ts)"
    and "sum_list (map wcu_of ts') = sum_list (map wcu_of ts)"
    and "sum_list (map net_of ts') = sum_list (map net_of ts)"
    and "net_offers_zero prm ts \<Longrightarrow> net_offers_zero prm ts'"
proof -
  from upd_fault_Inr [OF u] obtain t' where
    f: "update_rcu_net_delta prm (ts ! i) = Inr t'" and e: "ts' = ts[i := t']" by blast
  note fr = update_rcu_net_delta_frame [OF f]
  from fr have c: "core t' = core (ts ! i)" by simp
  show "length ts' = length ts" by (simp add: e)
  show "sum_list (map rcu_of ts') = sum_list (map rcu_of ts)"
    "sum_list (map wcu_of ts') = sum_list (map wcu_of ts)"
    "sum_list (map net_of ts') = sum_list (map net_of ts)"
    using i by (simp_all add: e sum_list_map_update core_sums [OF c])
  show "net_offers_zero prm ts \<Longrightarrow> net_offers_zero prm ts'"
    using fr i unfolding net_offers_zero_def e
    by (auto simp: list_all_length nth_list_update)
qed

lemma harvest_round_step:
  assumes inv: "harvest_inv prm n st" and r: "harvest_round prm tot st = Inr (Some st')"
  shows "harvest_inv prm n st'
     \<and> db_rcu (h_avail st') + sum_list (map rcu_of (h_tenants st'))
         = db_rcu (h_avail st) + sum_list (map rcu_of (h_tenants st))
     \<and> db_wcu (h_avail st') + sum_list (map wcu_of (h_tenants st'))
         = db_wcu (h_avail st) + sum_list (map wcu_of (h_tenants st))
     \<and> net_bw (h_avail st') + sum_list (map net_of (h_tenants st'))
         = net_bw (h_avail st) + sum_list (map net_of (h_tenants st))"
proof -
  from r obtain rl cp st1 where p: "pick_deal prm st = Some (rl, cp, st1)"
    by (cases "pick_deal prm st") (auto simp: harvest_round_def)
  from pick_deal_valid [OF inv p] have v: "rl < n" "cp < n" "harvest_inv prm n st1"
    "h_tenants st1 = h_tenants st" "h_avail st1 = h_avail st" by auto
  define ts0 where "ts0 = h_tenants st"
  define rr where "rr = rcu_delta_relinq (ts0 ! rl)"
  define nr where "nr = net_delta_relinq (ts0 ! rl)"
  define rc where "rc = rcu_delta_compen (ts0 ! cp)"
  define nc where "nc = net_delta_compen (ts0 ! cp)"
  define tsR where "tsR = relocate_resrc prm rl cp rr rc nr nc ts0"
  define avail' where "avail' = (h_avail st)\<lparr>db_rcu := db_rcu (h_avail st) + (rr - rc),
     net_bw := net_bw (h_avail st) + (nr - nc)\<rparr>"
  from r p v(4,5) obtain ts1 ts2 where
    u1: "upd_fault rl (update_rcu_net_delta prm) tsR = Inr ts1"
    and u2: "upd_fault cp (update_rcu_net_delta prm) ts1 = Inr ts2"
    and t': "h_tenants st' = ts2" and a': "h_avail st' = avail'"
    and ls: "rcu_relinq_list st' = rcu_relinq_list st1" "rcu_compen_list st' = rcu_compen_list st1"
      "net_relinq_list st' = net_relinq_list st1" "net_compen_list st' = net_compen_list st1"
    unfolding harvest_round_def
    by (auto simp: Let_def split_beta ebind_eq_Inr ts0_def rr_def nr_def rc_def nc_def tsR_def
        avail'_def split: if_splits)
  from inv have len0: "length ts0 = n" and z0: "net_offers_zero prm ts0"
    by (auto simp: harvest_inv_def ts0_def)
  have lenR: "length tsR = n" by (simp add: tsR_def len0)
  note sR = relocate_resrc_sums [of rl ts0 cp prm rr rc nr nc, folded tsR_def]
  have zR: "net_offers_zero prm tsR"
    using z0 relocate_resrc_offers [of ts0 prm rl cp rr rc nr nc]
    by (auto simp: net_offers_zero_def tsR_def)
  note s1 = update_at_sums [OF u1]
  have len1: "length ts1 = n" using s1(1) v(1) lenR by simp
  note s2 = update_at_sums [OF u2]
  have len2: "length ts2 = n" using s2(1) v(2) len1 by simp
  have z2: "net_offers_zero prm ts2"
    using s2(5) s1(5) zR v lenR len1 by simp
  have inv': "harvest_inv prm n st'"
    using v(3) len2 z2 ls t' by (simp add: harvest_inv_def)
  have nz: "\<not> alloc_total_net_bw prm \<Longrightarrow> nr = 0 \<and> nc = 0"
    using z0 v(1,2) len0 by (auto simp: net_offers_zero_def list_all_length nr_def nc_def)
  have rcu: "sum_list (map rcu_of ts2) = sum_list (map rcu_of ts0) + rc - rr"
    using s2(2) s1(2) sR(1) v(1,2) lenR len1 len0 by simp
  have wcu: "sum_list (map wcu_of ts2) = sum_list (map wcu_of ts0)"
    using s2(3) s1(3) sR(2) v(1,2) lenR len1 len0 by simp
  have net: "sum_list (map net_of ts2)
      = sum_list (map net_of ts0) + (if alloc_total_net_bw prm then nc - nr else 0)"
    using s2(4) s1(4) sR(3) v(1,2) lenR len1 len0 by simp
  show ?thesis
    using inv' rcu wcu net nz
    by (auto simp: t' a' avail'_def ts0_def)
qed

lemma harvest_inv_trade_round [simp]:
  "harvest_inv prm n (st\<lparr>trade_round := k\<rparr>) = harvest_inv prm n st"
  by (simp add: harvest_inv_def)

lemma harvest_loop_inv:
  "harvest_inv prm n st \<Longrightarrow> harvest_loop prm tot st = Inr st' \<Longrightarrow>
     harvest_inv prm n st'
     \<and> db_rcu (h_avail st') + sum_list (map rcu_of (h_tenants st'))
         = db_rcu (h_avail st) + sum_list (map rcu_of (h_tenants st))
     \<and> db_wcu (h_avail st') + sum_list (map wcu_of (h_tenants st'))
         = db_wcu (h_avail st) + sum_list (map wcu_of (h_tenants st))
     \<and> net_bw (h_avail st') + sum_list (map net_of (h_tenants st'))
         = net_bw (h_avail st) + sum_list (map net_of (h_tenants st))"
proof (induction prm tot st rule: harvest_loop.induct)
  case (1 prm tot st)
  show ?case
  proof (cases "trade_round st \<ge> max_trade_round")
    case True
    with "1.prems" show ?thesis by (simp add: harvest_loop.simps)
  next
    case False
    show ?thesis
    proof (cases "harvest_round prm tot st")
      case (Inl e)
      with False "1.prems" show ?thesis by (simp add: harvest_loop.simps)
    next
      case (Inr x)
      show ?thesis
      proof (cases x)
        case None
        with Inr False "1.prems" show ?thesis by (simp add: harvest_loop.simps)
      next
        case (Some st1)
        with Inr have r: "harvest_round prm tot st = Inr (Some st1)" by simp
        note step = harvest_round_step [OF "1.prems"(1) r]
        from "1.prems"(2) False r
        have l: "harvest_loop prm tot (st1\<lparr>trade_round := Suc (trade_round st)\<rparr>) = Inr st'"
          by (simp add: harvest_loop.simps [of prm tot st])
        from step have i1: "harvest_inv prm n (st1\<lparr>trade_round := Suc (trade_round st)\<rparr>)"
          by simp
        from "1.IH" [OF False Inr Some i1 l] step show ?thesis by simp
      qed
    qed
  qed
qed

lemma for_each_update_rcu_net_delta:
  assumes "for_each_tenant (update_rcu_net_delta prm) ts = Inr ts'"
  shows "length ts' = length ts"
    and "map rcu_of ts' = map rcu_of ts" and "map wcu_of ts' = map wcu_of ts"
    and "map net_of ts' = map net_of ts"
    and "map (\<lambda>t. cache_size (resrc t)) ts' = map (\<lambda>t. cache_size (resrc t)) ts"
    and "map reserved_cache_size ts' = map reserved_cache_size ts"
    and "net_offers_zero prm ts \<Longrightarrow> net_offers_zero prm ts'"
proof -
  note a = for_each_tenant_all2 [OF assms]
  show "length ts' = length ts" using a by (simp add: list_all2_lengthD)
  have c: "\<And>t t'. update_rcu_net_delta prm t = Inr t' \<Longrightarrow> core t' = core t"
    using update_rcu_net_delta_frame by blast
  show "map rcu_of ts' = map rcu_of ts" "map wcu_of ts' = map wcu_of ts"
    "map net_of ts' = map net_of ts"
    "map (\<lambda>t. cache_size (resrc t)) ts' = map (\<lambda>t. cache_size (resrc t)) ts"
    "map reserved_cache_size ts' = map reserved_cache_size ts"
    by (rule all2_map_eq [OF a], simp add: core_sums [OF c])+
  show "net_offers_zero prm ts \<Longrightarrow> net_offers_zero prm ts'"
  proof (cases "alloc_total_net_bw prm")
    case True
    then show ?thesis by (simp add: net_offers_zero_def)
  next
    case False
    have p: "\<And>t t'. update_rcu_net_delta prm t = Inr t' \<Longrightarrow>
        net_delta_relinq t = 0 \<and> net_delta_compen t = 0 \<Longrightarrow>
        net_delta_relinq t' = 0 \<and> net_delta_compen t' = 0"
    proof -
      fix t t' assume u: "update_rcu_net_delta prm t = Inr t'"
        and q: "net_delta_relinq t = 0 \<and> net_delta_compen t = 0"
      from update_rcu_net_delta_frame [OF u] False q
      show "net_delta_relinq t' = 0 \<and> net_delta_compen t' = 0" by auto
    qed
    assume "net_offers_zero prm ts"
    with False have "list_all (\<lambda>t. net_delta_relinq t = 0 \<and> net_delta_compen t = 0) ts"
      by (simp add: net_offers_zero_def)
    from all2_list_all [OF a this p] show ?thesis by (simp add: net_offers_zero_def)
  qed
qed

lemma do_harvest_sums:
  assumes h: "do_harvest prm tot ts avail = Inr (ts', avail', k)"
    and n: "2 \<le> length ts" and z: "net_offers_zero prm ts"
  shows "length ts' = length ts \<and> net_offers_zero prm ts'
     \<and> db_rcu avail' + sum_list (map rcu_of ts') = db_rcu avail + sum_list (map rcu_of ts)
     \<and> db_wcu avail' + sum_list (map wcu_of ts') = db_wcu avail + sum_list (map wcu_of ts)
     \<and> net_bw avail' + sum_list (map net_of ts') = net_bw avail + sum_list (map net_of ts)"
proof -
  from h obtain ts1 st' where
    f: "for_each_tenant (update_rcu_net_delta prm) ts = Inr ts1"
    and l: "harvest_loop prm tot
             \<lparr> h_tenants = ts1, h_avail = avail,
               prev_estimated_improve_ratio = fst (estimate_bottleneck tot avail),
               is_rcu_bottleneck = fst (snd (estimate_bottleneck tot avail)),
               is_net_bottleneck = snd (snd (estimate_bottleneck tot avail)),
               rcu_relinq_list = [0 ..< length ts1], rcu_compen_list = [0 ..< length ts1],
               net_relinq_list = (if alloc_total_net_bw prm then [0 ..< length ts1] else []),
               net_compen_list = (if alloc_total_net_bw prm then [0 ..< length ts1] else []),
               trade_round = 0 \<rparr> = Inr st'"
      (is "harvest_loop prm tot ?st0 = Inr st'")
    and e: "ts' = h_tenants st'" "avail' = h_avail st'"
    unfolding do_harvest_def by (auto simp: split_beta Let_def ebind_eq_Inr)
  note u = for_each_update_rcu_net_delta [OF f]
  have inv0: "harvest_inv prm (length ts) ?st0"
    using u(1) u(7) [OF z] n by (simp add: harvest_inv_def ptr_list_upt)
  from harvest_loop_inv [OF inv0 l] u show ?thesis
    by (simp add: e harvest_inv_def)
qed

section \<open>Proofs: redistribution\<close>

lemma share_sum:
  fixes f :: "'a \<Rightarrow> real"
  assumes S: "S = sum_list (map f ts)" and n: "ts \<noteq> []"
  shows "sum_list (map (\<lambda>t. f t + a * (if S \<noteq> 0 then f t / S else 1 / real (length ts))) ts)
           = sum_list (map f ts) + a"
proof (cases "S \<noteq> 0")
  case True
  have "sum_list (map (\<lambda>t. f t + a * (f t / S)) ts)
          = sum_list (map f ts) + a * (sum_list (map f ts) / S)"
    by (simp add: sum_list_addf sum_list_const_mult divide_inverse sum_list_mult_const)
  with True S show ?thesis by simp
next
  case False
  have "sum_list (map (\<lambda>t. f t + a * (1 / real (length ts))) ts)
          = sum_list (map f ts) + a * (real (length ts) * (1 / real (length ts)))"
    by (simp add: sum_list_addf sum_list_triv)
  with False n show ?thesis by simp
qed

lemma scale_by_owned_simps [simp]:
  "rcu_of (scale_stateless_resrc_by_owned avail rsum n t)
     = rcu_of t + db_rcu avail * (if db_rcu rsum \<noteq> 0 then rcu_of t / db_rcu rsum else 1 / real n)"
  "wcu_of (scale_stateless_resrc_by_owned avail rsum n t)
     = wcu_of t + db_wcu avail * (if db_wcu rsum \<noteq> 0 then wcu_of t / db_wcu rsum else 1 / real n)"
  "net_of (scale_stateless_resrc_by_owned avail rsum n t)
     = net_of t + net_bw avail * (if net_bw rsum \<noteq> 0 then net_of t / net_bw rsum else 1 / real n)"
  "cache_size (resrc (scale_stateless_resrc_by_owned avail rsum n t)) = cache_size (resrc t)"
  "reserved_cache_size (scale_stateless_resrc_by_owned avail rsum n t) = reserved_cache_size t"
  by (simp_all add: scale_stateless_resrc_by_owned_def Let_def set_stateless_def
      rcu_of_def wcu_of_def net_of_def)

lemma do_redistribute_conserving:
  assumes c: "conserving pol" and ne: "ts \<noteq> []"
    and d: "do_redistribute pol tot ts avail = Inr (ratio, ts', avail')"
    and s: "db_rcu (stateless tot) = db_rcu avail + sum_list (map rcu_of ts)"
      "db_wcu (stateless tot) = db_wcu avail + sum_list (map wcu_of ts)"
      "net_bw (stateless tot) = net_bw avail + sum_list (map net_of ts)"
  shows "sum_list (map rcu_of ts') = db_rcu (stateless tot)"
    and "sum_list (map wcu_of ts') = db_wcu (stateless tot)"
    and "sum_list (map net_of ts') = net_bw (stateless tot)"
    and "map (\<lambda>t. cache_size (resrc t)) ts' = map (\<lambda>t. cache_size (resrc t)) ts"
    and "map reserved_cache_size ts' = map reserved_cache_size ts"
proof -
  let ?sum = "vec_minus (stateless tot) avail"
  from c d have e: "ts' = map (scale_stateless_resrc_by_owned avail ?sum (length ts)) ts"
    by (simp add: do_redistribute_def Let_def)
  have r: "db_rcu ?sum = sum_list (map rcu_of ts)" "db_wcu ?sum = sum_list (map wcu_of ts)"
    "net_bw ?sum = sum_list (map net_of ts)"
    using s by simp_all
  show "sum_list (map rcu_of ts') = db_rcu (stateless tot)"
    unfolding e map_map comp_def scale_by_owned_simps
    using share_sum [OF r(1) ne, of "db_rcu avail"] s(1) by simp
  show "sum_list (map wcu_of ts') = db_wcu (stateless tot)"
    unfolding e map_map comp_def scale_by_owned_simps
    using share_sum [OF r(2) ne, of "db_wcu avail"] s(2) by simp
  show "sum_list (map net_of ts') = net_bw (stateless tot)"
    unfolding e map_map comp_def scale_by_owned_simps
    using share_sum [OF r(3) ne, of "net_bw avail"] s(3) by simp
  show "map (\<lambda>t. cache_size (resrc t)) ts' = map (\<lambda>t. cache_size (resrc t)) ts"
    "map reserved_cache_size ts' = map reserved_cache_size ts"
    by (simp_all add: e comp_def)
qed

section \<open>Proofs: the memshare phase\<close>

lemma memshare_loop_rule_aux:
  assumes step: "\<And>s go s'. I s \<Longrightarrow> memshare_round prm s = Inr (go, s') \<Longrightarrow> I s'"
  shows "memshare_loop p s = Some y \<Longrightarrow> p = prm \<longrightarrow> (\<forall>s'. y = Inr s' \<longrightarrow> I s \<longrightarrow> I s')"
proof (induction rule: memshare_loop.raw_induct [rotated, consumes 1, case_names loop])
  case (loop lp p s y)
  show ?case
  proof (intro impI allI)
    fix s' assume p: "p = prm" and y: "y = Inr s'" and Is: "I s"
    show "I s'"
    proof (cases "memshare_round prm s")
      case (Inl e)
      with loop(2) p y show ?thesis by simp
    next
      case (Inr x)
      obtain go s1 where x: "x = (go, s1)" by (cases x)
      from step [OF Is Inr [unfolded x]] have I1: "I s1" .
      show ?thesis
      proof (cases go)
        case True
        with loop(2) p Inr x have "lp prm s1 = Some y" by simp
        from loop(1) [OF this] y I1 show ?thesis by simp
      next
        case False
        with loop(2) p Inr x y have "s' = s1" by simp
        with I1 show ?thesis by simp
      qed
    qed
  qed
qed

lemma memshare_loop_rule:
  assumes run: "memshare_loop prm st = Some (Inr st')"
    and init: "I st"
    and step: "\<And>s go s'. I s \<Longrightarrow> memshare_round prm s = Inr (go, s') \<Longrightarrow> I s'"
  shows "I st'"
  using memshare_loop_rule_aux [of I prm prm st "Inr st'", OF step run] init by simp

lemma map_upd_same:
  "(\<And>t. v (g t) = v t) \<Longrightarrow> map v (upd i g ts) = map v ts"
  by (cases "i < length ts") (simp_all add: upd_def map_update list_update_same_conv list_update_beyond)

lemma stateless_view_set_cache_size [simp]:
  "stateless_view (set_cache_size n t) = stateless_view t"
  by (simp add: stateless_view_def set_cache_size_def)

lemma relocate_cache_view [simp]:
  "map stateless_view (relocate_cache prm r d ts) = map stateless_view ts"
  by (simp add: relocate_cache_def Let_def map_upd_same)

lemma for_each_update_mr_delta:
  assumes "for_each_tenant (update_mr_delta prm) ts = Inr ts'"
  shows "length ts' = length ts"
    and "map stateless_view ts' = map stateless_view ts"
    and "map (\<lambda>t. cache_size (resrc t)) ts' = map (\<lambda>t. cache_size (resrc t)) ts"
    and "map reserved_cache_size ts' = map reserved_cache_size ts"
proof -
  note a = for_each_tenant_all2 [OF assms]
  show "length ts' = length ts" using a by (simp add: list_all2_lengthD)
  show "map stateless_view ts' = map stateless_view ts"
  proof (rule all2_map_eq [OF a])
    fix t t' assume "update_mr_delta prm t = Inr t'"
    from update_mr_delta_frame [OF this]
    show "stateless_view t' = stateless_view t" by (simp add: stateless_view_def)
  qed
  show "map (\<lambda>t. cache_size (resrc t)) ts' = map (\<lambda>t. cache_size (resrc t)) ts"
  proof (rule all2_map_eq [OF a])
    fix t t' assume "update_mr_delta prm t = Inr t'"
    from update_mr_delta_frame [OF this]
    show "cache_size (resrc t') = cache_size (resrc t)" by simp
  qed
  show "map reserved_cache_size ts' = map reserved_cache_size ts"
  proof (rule all2_map_eq [OF a])
    fix t t' assume "update_mr_delta prm t = Inr t'"
    from update_mr_delta_frame [OF this]
    show "reserved_cache_size t' = reserved_cache_size t" by simp
  qed
qed

lemma memshare_round_tenants:
  assumes "memshare_round prm s = Inr (go, s')"
  obtains ts1 where "for_each_tenant (update_mr_delta prm) (m_tenants s) = Inr ts1"
    and "cache_more_list s' = cache_more_list s"
    and "cache_less_list s' = std_sort (less_mr_dec ts1) (cache_less_list s)"
    and "m_tenants s' = ts1
         \<or> (\<exists>d. find (\<lambda>d. d \<noteq> cache_more_list s ! max_element (less_mr_inc ts1) (cache_more_list s)
                            \<and> can_donate prm (ts1 ! d))
                   (std_sort (less_mr_dec ts1) (cache_less_list s)) = Some d
               \<and> m_tenants s' = relocate_cache prm
                    (cache_more_list s ! max_element (less_mr_inc ts1) (cache_more_list s)) d ts1)"
proof (cases "for_each_tenant (update_mr_delta prm) (m_tenants s)")
  case (Inl e)
  with assms show ?thesis by (simp add: memshare_round_def)
next
  case (Inr ts1)
  define r where "r = cache_more_list s ! max_element (less_mr_inc ts1) (cache_more_list s)"
  define sl where "sl = std_sort (less_mr_dec ts1) (cache_less_list s)"
  define s1 where "s1 = s\<lparr>m_tenants := ts1, cache_less_list := sl\<rparr>"
  have e: "(case find (\<lambda>d. d \<noteq> r \<and> can_donate prm (ts1 ! d)) sl of
            None \<Rightarrow> Inr (False, s1)
          | Some donator \<Rightarrow>
              if mr_inc_if_more_cache (ts1 ! r) > mr_dec_if_less_cache (ts1 ! donator)
              then Inr (True, s1\<lparr>m_tenants := relocate_cache prm r donator ts1\<rparr>)
              else Inr (False, s1)) = (Inr (go, s') :: fault + (bool \<times> memshare_state))"
    using assms unfolding memshare_round_def Inr r_def sl_def s1_def
    by (simp only: ebind_simps Let_def)
  have "cache_more_list s' = cache_more_list s \<and> cache_less_list s' = sl
      \<and> (m_tenants s' = ts1 \<or> (\<exists>d. find (\<lambda>d. d \<noteq> r \<and> can_donate prm (ts1 ! d)) sl = Some d
               \<and> m_tenants s' = relocate_cache prm r d ts1))"
  proof (cases "find (\<lambda>d. d \<noteq> r \<and> can_donate prm (ts1 ! d)) sl")
    case None
    with e have "s' = s1" by simp
    then show ?thesis by (simp add: s1_def)
  next
    case (Some d)
    with e have "s' = s1 \<or> s' = s1\<lparr>m_tenants := relocate_cache prm r d ts1\<rparr>"
      by (simp split: if_splits)
    with Some show ?thesis by (auto simp: s1_def)
  qed
  then show ?thesis using that [OF Inr] unfolding r_def sl_def by blast
qed

lemma memshare_round_view:
  assumes "memshare_round prm s = Inr (go, s')"
  shows "map stateless_view (m_tenants s') = map stateless_view (m_tenants s)"
proof -
  from assms obtain ts1 where f: "for_each_tenant (update_mr_delta prm) (m_tenants s) = Inr ts1"
    and m: "m_tenants s' = ts1 \<or> (\<exists>r d. m_tenants s' = relocate_cache prm r d ts1)"
    by (rule memshare_round_tenants) blast
  from m for_each_update_mr_delta(2) [OF f] show ?thesis by auto
qed

lemma do_memshare_view:
  assumes "do_memshare prm ts = Some (Inr ts')"
  shows "map stateless_view ts' = map stateless_view ts"
proof -
  from assms obtain st' where
    l: "memshare_loop prm \<lparr> m_tenants = ts, cache_more_list = [0 ..< length ts],
               cache_less_list = [0 ..< length ts] \<rparr> = Some (Inr st')"
    and e: "ts' = m_tenants st'"
    by (auto simp: do_memshare_def split: option.splits sum.splits)
  have "map stateless_view (m_tenants st') = map stateless_view ts"
    by (rule memshare_loop_rule [OF l, where I = "\<lambda>s. map stateless_view (m_tenants s) = map stateless_view ts"])
       (simp_all add: memshare_round_view)
  with e show ?thesis by simp
qed

lemma view_sums:
  assumes "map stateless_view ts' = map stateless_view ts"
  shows "map rcu_of ts' = map rcu_of ts" "map wcu_of ts' = map wcu_of ts"
    "map net_of ts' = map net_of ts" "length ts' = length ts"
    "net_offers_zero prm ts \<Longrightarrow> net_offers_zero prm ts'"
proof -
  have r: "rcu_of = (\<lambda>v. db_rcu (fst v)) \<circ> stateless_view"
    "wcu_of = (\<lambda>v. db_wcu (fst v)) \<circ> stateless_view"
    "net_of = (\<lambda>v. net_bw (fst v)) \<circ> stateless_view"
    by (auto simp: rcu_of_def wcu_of_def net_of_def stateless_view_def fun_eq_iff)
  show "map rcu_of ts' = map rcu_of ts" "map wcu_of ts' = map wcu_of ts"
    "map net_of ts' = map net_of ts"
    unfolding r map_map [symmetric] assms by simp_all
  show len: "length ts' = length ts" using assms by (metis length_map)
  have z: "list_all (\<lambda>t. net_delta_relinq t = 0 \<and> net_delta_compen t = 0) us
        = list_all (\<lambda>v. fst (snd v) = 0 \<and> snd (snd v) = 0) (map stateless_view us)" for us
    by (induction us) (simp_all add: stateless_view_def)
  show "net_offers_zero prm ts \<Longrightarrow> net_offers_zero prm ts'"
    unfolding net_offers_zero_def z assms by simp
qed

section \<open>Proofs: conservation through do_alloc\<close>

lemma collect_all_offers:
  assumes "collect_all prm ts avail = Inr (ts', avail')"
  shows "length ts' = length ts" and "net_offers_zero prm ts \<Longrightarrow> net_offers_zero prm ts'"
proof -
  from collect_all_all2 [OF assms]
  have a: "list_all2 (\<lambda>t t'. \<exists>idle. collect_idle prm t = Inr (idle, t')) ts ts'" by simp
  show "length ts' = length ts" using a by (simp add: list_all2_lengthD)
  assume z: "net_offers_zero prm ts"
  show "net_offers_zero prm ts'"
  proof (cases "alloc_total_net_bw prm")
    case True
    then show ?thesis by (simp add: net_offers_zero_def)
  next
    case False
    with z have l: "list_all (\<lambda>t. net_delta_relinq t = 0 \<and> net_delta_compen t = 0) ts"
      by (simp add: net_offers_zero_def)
    have "list_all (\<lambda>t. net_delta_relinq t = 0 \<and> net_delta_compen t = 0) ts'"
    proof (rule all2_list_all [OF a l])
      fix t t'
      assume e: "\<exists>idle. collect_idle prm t = Inr (idle, t')"
        and q: "net_delta_relinq t = 0 \<and> net_delta_compen t = 0"
      from e obtain idle where "collect_idle prm t = Inr (idle, t')" ..
      from collect_idle_frame [OF this] q
      show "net_delta_relinq t' = 0 \<and> net_delta_compen t' = 0" by simp
    qed
    then show ?thesis by (simp add: net_offers_zero_def)
  qed
qed

lemma almost_equal_self: "is_almost_equal v v"
  by (simp add: is_almost_equal_def is_almost_empty_def db_rcu_epsilon_def db_wcu_epsilon_def
      net_bw_epsilon_def)

lemma almost_equal_leftover:
  assumes "is_almost_empty w"
    and "db_rcu w + db_rcu u = db_rcu v" "db_wcu w + db_wcu u = db_wcu v"
    "net_bw w + net_bw u = net_bw v"
  shows "is_almost_equal u v"
proof -
  have "db_rcu u - db_rcu v = - db_rcu w" "db_wcu u - db_wcu v = - db_wcu w"
    "net_bw u - net_bw v = - net_bw w"
    using assms(2-4) by simp_all
  with assms(1) show ?thesis
    by (simp add: is_almost_equal_def is_almost_empty_def)
qed

lemma alloc_phases_conserving:
  assumes c: "conserving (policy a)" and n: "2 \<le> length ts" and z: "net_offers_zero prm ts"
    and s: "aggregate_resrc ts = stateless (total_resrc a)"
    and r: "alloc_phases prm a ts = Inr (ratio, a', k)"
  shows "is_almost_equal (aggregate_resrc (tenants a')) (stateless (total_resrc a))"
proof -
  from r obtain ts1 av1 where c1: "collect_all prm ts empty_vec = Inr (ts1, av1)"
    by (auto simp: alloc_phases_def split: sum.splits)
  from r c1 obtain ts2 av2 k2 where
    h: "(if harvest (policy a) then do_harvest prm (total_resrc a) ts1 av1
         else Inr (ts1, av1, 0)) = Inr (ts2, av2, k2)"
    by (auto simp: alloc_phases_def split: sum.splits)
  from collect_all_all2 [OF c1]
  have s1: "db_rcu av1 + sum_list (map rcu_of ts1) = sum_list (map rcu_of ts)"
    "db_wcu av1 + sum_list (map wcu_of ts1) = sum_list (map wcu_of ts)"
    "net_bw av1 + sum_list (map net_of ts1) = sum_list (map net_of ts)"
    by simp_all
  note o1 = collect_all_offers [OF c1]
  have s2: "length ts2 = length ts
     \<and> db_rcu av2 + sum_list (map rcu_of ts2) = sum_list (map rcu_of ts)
     \<and> db_wcu av2 + sum_list (map wcu_of ts2) = sum_list (map wcu_of ts)
     \<and> net_bw av2 + sum_list (map net_of ts2) = sum_list (map net_of ts)"
  proof (cases "harvest (policy a)")
    case True
    with h have "do_harvest prm (total_resrc a) ts1 av1 = Inr (ts2, av2, k2)" by simp
    from do_harvest_sums [OF this] n o1 z s1 show ?thesis by simp
  next
    case False
    with h o1 s1 show ?thesis by simp
  qed
  have t: "db_rcu (stateless (total_resrc a)) = sum_list (map rcu_of ts)"
    "db_wcu (stateless (total_resrc a)) = sum_list (map wcu_of ts)"
    "net_bw (stateless (total_resrc a)) = sum_list (map net_of ts)"
    unfolding s [symmetric] by simp_all
  show ?thesis
  proof (cases "is_almost_empty av2")
    case True
    with r c1 h have "tenants a' = ts2"
      by (auto simp: alloc_phases_def split: sum.splits)
    with True s2 t show ?thesis
      by (intro almost_equal_leftover [of av2]) simp_all
  next
    case False
    with r c1 h obtain av3 where
      d: "do_redistribute (policy a) (total_resrc a) ts2 av2 = Inr (ratio, tenants a', av3)"
      by (auto simp: alloc_phases_def split: sum.splits)
    from s2 n have ne: "ts2 \<noteq> []" by auto
    have "aggregate_resrc (tenants a') = stateless (total_resrc a)"
      by (rule vec_eqI; simp only: aggregate_resrc_sums;
          rule do_redistribute_conserving [OF c ne d]; simp add: t s2)
    then show ?thesis by (simp add: almost_equal_self)
  qed
qed


end
